theory Spec2Isabelle
  imports Complex_Main
begin

section \<open>Logistic regression (Practicas/Practica3/logistic\_reg.py)\<close>

text \<open>
  The module works on numpy arrays of float64. Two readings of its arithmetic are
  used.
  \<^item> Over the reals. A float is a \<^typ>\<open>real\<close> and every operation is exact. This
    reading says which expression each function computes, which errors it raises
    and what it does to its arrays; it is the one used for \<open>compute_gradient\<close>,
    \<open>compute_gradient_reg\<close>, \<open>gradient_descent\<close> and \<open>predict\<close>, and for the exact
    values of \<open>sigmoid\<close> and the cost functions.
  \<^item> Over float64. A float is a value of \<open>float64\<close> and every operation rounds as
    IEEE 754 binary64 does, with overflow to infinity and with \<open>nan\<close>. This reading is
    used for \<open>sigmoid\<close>, \<open>compute_cost\<close> and \<open>compute_cost_reg\<close> (the definitions
    whose names end in \<open>64\<close>), where the statements compare computed results.

  The arguments have the shapes that the docstrings of \<open>compute_cost\<close>, the
  regularized functions, \<open>gradient_descent\<close> and \<open>predict\<close> give them, and that
  \<open>gradient_descent\<close> passes on to the cost and gradient functions:
  \<^item> \<open>X\<close>, a 2-D array of shape \<open>(m, n)\<close>, is the list of its \<open>m\<close> rows;
  \<^item> \<open>y\<close> of shape \<open>(m,)\<close> and \<open>w\<close> of shape \<open>(n,)\<close>, 1-D arrays, are lists;
  \<^item> \<open>b\<close> and \<open>alpha\<close> are scalars;
  \<^item> \<open>lambda_\<close> is \<open>None\<close> or a float, as the default \<open>lambda_=None\<close> has it.

  What numpy and Python raise is a value of \<open>error\<close>; a function that can raise
  returns \<open>error + 'a\<close>.
\<close>

datatype error = ValueError | ZeroDivisionError | TypeError

subsection \<open>sigmoid\<close>

definition sigmoid :: "real \<Rightarrow> real" where
  "sigmoid z = 1 / (1 + exp (- z))"

subsection \<open>Array operations of numpy used by the module\<close>

text \<open>
  \<open>np.dot(X, w)\<close> of a 2-D array with a 1-D array: every row of \<open>X\<close> must be as
  long as \<open>w\<close>, or numpy raises ValueError. The empty list stands for an array
  with no rows, whose column count is not recorded: it is taken to fit.
\<close>

definition np_dot :: "real list list \<Rightarrow> real list \<Rightarrow> error + real list" where
  "np_dot X w =
     (if list_all (\<lambda>r. length r = length w) X
      then Inr (map (\<lambda>r. sum_list (map2 (*) r w)) X)
      else Inl ValueError)"

text \<open>
  \<open>np.dot(X.T, v)\<close>: \<open>X.T\<close> has shape \<open>(n, m)\<close>, so \<open>v\<close> must have \<open>m\<close> entries;
  entry \<open>j\<close> of the result is column \<open>j\<close> of \<open>X\<close> times \<open>v\<close>. The column count
  \<open>n\<close> is passed in: where the module takes \<open>X.T\<close>, \<open>np.dot(X, w)\<close> has already
  succeeded, so \<open>n = len(w)\<close>.
\<close>

definition np_dot_T :: "real list list \<Rightarrow> nat \<Rightarrow> real list \<Rightarrow> error + real list" where
  "np_dot_T X n v =
     (if length X = length v
      then Inr (map (\<lambda>j. sum_list (map2 (*) (map (\<lambda>r. r ! j) X) v)) [0..<n])
      else Inl ValueError)"

text \<open>
  An elementwise binary operation on two 1-D arrays, with numpy's broadcasting:
  equal lengths pair up, an array of length 1 is stretched, anything else raises
  ValueError.
\<close>

definition broadcast :: "('a \<Rightarrow> 'a \<Rightarrow> 'a) \<Rightarrow> 'a list \<Rightarrow> 'a list \<Rightarrow> error + 'a list" where
  "broadcast f xs ys =
     (if length xs = length ys then Inr (map2 f xs ys)
      else if length xs = 1 then Inr (map (f (hd xs)) ys)
      else if length ys = 1 then Inr (map (\<lambda>x. f x (hd ys)) xs)
      else Inl ValueError)"

text \<open>
  An exception leaves the function at once: the rest of the body runs only on a
  value.
\<close>

definition and_then :: "error + 'a \<Rightarrow> ('a \<Rightarrow> error + 'b) \<Rightarrow> error + 'b" where
  "and_then r f = (case r of Inl e \<Rightarrow> Inl e | Inr v \<Rightarrow> f v)"

subsection \<open>Cost\<close>

text \<open>
  \<open>-1 / m\<close> divides by the Python int \<open>len(y)\<close> and is evaluated before the sum
  it multiplies: with \<open>m = 0\<close> it raises ZeroDivisionError.
\<close>

definition compute_cost ::
  "real list list \<Rightarrow> real list \<Rightarrow> real list \<Rightarrow> real \<Rightarrow> real option \<Rightarrow> error + real" where
  "compute_cost X y w b lambda =
     (let m = length y in
      and_then (np_dot X w) (\<lambda>xw.
      let z = map (\<lambda>t. t + b) xw;
          h = map sigmoid z in
      if m = 0 then Inl ZeroDivisionError else
      and_then (broadcast (*) y (map ln h)) (\<lambda>t1.
      and_then (broadcast (*) (map (\<lambda>v. 1 - v) y) (map (\<lambda>v. ln (1 - v)) h)) (\<lambda>t2.
      and_then (broadcast (+) t1 t2) (\<lambda>t.
      let total_cost = - 1 / real m * sum_list t in
      Inr total_cost)))))"

text \<open>
  With \<open>lambda_ = None\<close> the division \<open>lambda_ / (2 * m)\<close> raises TypeError, after
  the unregularized cost has been computed.
\<close>

definition compute_cost_reg ::
  "real list list \<Rightarrow> real list \<Rightarrow> real list \<Rightarrow> real \<Rightarrow> real option \<Rightarrow> error + real" where
  "compute_cost_reg X y w b lambda =
     (let m = length y in
      and_then (np_dot X w) (\<lambda>xw.
      let z = map (\<lambda>t. t + b) xw;
          y_pred = map sigmoid z in
      if m = 0 then Inl ZeroDivisionError else
      and_then (broadcast (*) y (map ln y_pred)) (\<lambda>t1.
      and_then (broadcast (*) (map (\<lambda>v. 1 - v) y) (map (\<lambda>v. ln (1 - v)) y_pred)) (\<lambda>t2.
      and_then (broadcast (+) t1 t2) (\<lambda>t.
      let cost = (- 1 / real m) * sum_list t in
      and_then (case lambda of None \<Rightarrow> Inl TypeError | Some l \<Rightarrow> Inr (l / (2 * real m))) (\<lambda>c.
      let reg_term = c * sum_list (map (\<lambda>x. x ^ 2) w);
          total_cost = cost + reg_term in
      Inr total_cost))))))"

subsection \<open>Gradient\<close>

definition compute_gradient ::
  "real list list \<Rightarrow> real list \<Rightarrow> real list \<Rightarrow> real \<Rightarrow> real option
     \<Rightarrow> error + (real \<times> real list)" where
  "compute_gradient X y w b lambda =
     (let m = length y in
      and_then (np_dot X w) (\<lambda>xw.
      let z = map (\<lambda>t. t + b) xw;
          h = map sigmoid z in
      if m = 0 then Inl ZeroDivisionError else
      and_then (broadcast (-) h y) (\<lambda>d.
      let dj_db = 1 / real m * sum_list d in
      and_then (np_dot_T X (length w) d) (\<lambda>xd.
      let dj_dw = map (\<lambda>t. 1 / real m * t) xd in
      Inr (dj_db, dj_dw)))))"

definition compute_gradient_reg ::
  "real list list \<Rightarrow> real list \<Rightarrow> real list \<Rightarrow> real \<Rightarrow> real option
     \<Rightarrow> error + (real \<times> real list)" where
  "compute_gradient_reg X y w b lambda =
     (let m = length y in
      and_then (np_dot X w) (\<lambda>xw.
      let z = map (\<lambda>t. t + b) xw;
          y_pred = map sigmoid z in
      if m = 0 then Inl ZeroDivisionError else
      and_then (broadcast (-) y_pred y) (\<lambda>d.
      let dj_db = (1 / real m) * sum_list d in
      and_then (np_dot_T X (length w) d) (\<lambda>xd.
      and_then (case lambda of None \<Rightarrow> Inl TypeError | Some l \<Rightarrow> Inr (l / real m)) (\<lambda>c.
      and_then (broadcast (+) (map (\<lambda>t. (1 / real m) * t) xd) (map (\<lambda>t. c * t) w)) (\<lambda>dj_dw.
      Inr (dj_db, dj_dw)))))))"

subsection \<open>Gradient descent\<close>

text \<open>
  \<open>gradient_descent\<close> copies \<open>w_in\<close> and updates the copy in place, so arrays
  live in a store: \<open>cells\<close> gives the contents at an address and every address
  below \<open>next_free\<close> is allocated. \<open>w_in\<close> is the address of the caller's array.
\<close>

record heap =
  cells :: "nat \<Rightarrow> real list"
  next_free :: nat

text \<open>\<open>w_in.copy()\<close>: a new array with the same contents.\<close>

definition ndarray_copy :: "heap \<Rightarrow> nat \<Rightarrow> heap \<times> nat" where
  "ndarray_copy s a =
     (s\<lparr>cells := (cells s)(next_free s := cells s a), next_free := Suc (next_free s)\<rparr>,
      next_free s)"

text \<open>
  \<open>w -= v\<close> on the array at address \<open>a\<close>: the difference is written into the same
  array. \<open>v\<close> is broadcast to the shape of \<open>w\<close>; numpy raises ValueError when the
  broadcast shape is not that of \<open>w\<close>.
\<close>

definition np_isub :: "heap \<Rightarrow> nat \<Rightarrow> real list \<Rightarrow> error + heap" where
  "np_isub s a v =
     (let w = cells s a in
      if length v = length w then Inr (s\<lparr>cells := (cells s)(a := map2 (-) w v)\<rparr>)
      else if length v = 1 then Inr (s\<lparr>cells := (cells s)(a := map (\<lambda>x. x - hd v) w)\<rparr>)
      else Inl ValueError)"

type_synonym cost_fn =
  "real list list \<Rightarrow> real list \<Rightarrow> real list \<Rightarrow> real \<Rightarrow> real option \<Rightarrow> error + real"

type_synonym gradient_fn =
  "real list list \<Rightarrow> real list \<Rightarrow> real list \<Rightarrow> real \<Rightarrow> real option
     \<Rightarrow> error + (real \<times> real list)"

text \<open>
  The body of \<open>for i in range(num_iters)\<close>, run over the remaining indices. The
  supplied functions are pure: they see the contents of \<open>w\<close>, and an error of
  theirs ends the loop. The state is the store, \<open>b\<close> and \<open>J_history\<close>.
\<close>

fun gd_loop ::
  "real list list \<Rightarrow> real list \<Rightarrow> cost_fn \<Rightarrow> gradient_fn \<Rightarrow> real \<Rightarrow> real option \<Rightarrow> nat
     \<Rightarrow> nat list \<Rightarrow> heap \<times> real \<times> real list \<Rightarrow> error + (heap \<times> real \<times> real list)" where
  "gd_loop X y cost_function gradient_function alpha lambda w [] st = Inr st"
| "gd_loop X y cost_function gradient_function alpha lambda w (i # is) (s, b, J_history) =
     and_then (gradient_function X y (cells s w) b lambda) (\<lambda>(dj_db, dj_dw).
     and_then (np_isub s w (map (\<lambda>t. alpha * t) dj_dw)) (\<lambda>s'.
     let b' = b - alpha * dj_db in
     and_then (cost_function X y (cells s' w) b' lambda) (\<lambda>cost.
     gd_loop X y cost_function gradient_function alpha lambda w is
       (s', b', J_history[i := cost]))))"

text \<open>
  \<open>m, n = X.shape\<close> succeeds on a 2-D array, and neither value is used.
  \<open>np.zeros(num_iters)\<close> raises ValueError for a negative count. The result is the
  final store, the address of \<open>w\<close> (the copy), \<open>b\<close> and \<open>J_history\<close>.
\<close>

definition gradient_descent ::
  "heap \<Rightarrow> real list list \<Rightarrow> real list \<Rightarrow> nat \<Rightarrow> real \<Rightarrow> cost_fn \<Rightarrow> gradient_fn \<Rightarrow> real
     \<Rightarrow> int \<Rightarrow> real option \<Rightarrow> error + (heap \<times> nat \<times> real \<times> real list)" where
  "gradient_descent s X y w_in b_in cost_function gradient_function alpha num_iters lambda =
     (let (s1, w) = ndarray_copy s w_in;
          b = b_in in
      if num_iters < 0 then Inl ValueError else
      let J_history = replicate (nat num_iters) 0 in
      and_then
        (gd_loop X y cost_function gradient_function alpha lambda w [0..<nat num_iters]
           (s1, b, J_history))
        (\<lambda>(s', b', J_history'). Inr (s', w, b', J_history')))"

subsection \<open>predict\<close>

text \<open>
  The result of \<open>predict\<close> is an array of ints whose number of dimensions
  matters: \<open>Arr1 xs\<close> is the 1-D array of shape \<open>(len xs,)\<close>, \<open>Arr2 rows\<close> the 2-D
  array of the given rows.
\<close>

datatype 'a ndarray = Arr1 "'a list" | Arr2 "'a list list"

fun shape :: "'a ndarray \<Rightarrow> nat list" where
  "shape (Arr1 xs) = [length xs]"
| "shape (Arr2 rows) = [length rows, (case rows of [] \<Rightarrow> 0 | r # _ \<Rightarrow> length r)]"

text \<open>
  \<open>p = np.zeros((m, 1))\<close> is overwritten by the last assignment. \<open>np.dot\<close> of a 2-D
  array with a 1-D array is 1-D, so \<open>h = sigmoid(np.dot(X, w) + b)\<close> has shape \<open>(m,)\<close>,
  and so has \<open>(h >= 0.5).astype(int)\<close>.
\<close>

definition predict :: "real list list \<Rightarrow> real list \<Rightarrow> real \<Rightarrow> error + int ndarray" where
  "predict X w b =
     (let m = length X;
          p = Arr2 (replicate m [0 :: real]) in
      and_then (np_dot X w) (\<lambda>xw.
      let z = map (\<lambda>t. t + b) xw;
          h = map sigmoid z;
          p = Arr1 (map (\<lambda>v. if v \<ge> 0.5 then 1 else 0) h) in
      Inr p))"

section \<open>The float64 reading\<close>

subsection \<open>Values and rounding\<close>

text \<open>
  A float64 is a finite number, an infinity or \<open>nan\<close>. The two zeros \<open>+0.0\<close> and \<open>-0.0\<close>
  are one value \<open>Fin 0\<close>: they compare equal, and \<open>sigmoid\<close> and the cost functions
  never divide by a float zero (the divisor of \<open>sigmoid\<close> is at least 1, the other
  divisors are Python ints), so no result depends on the sign of a zero.
\<close>

datatype float64 = Fin real | PInf | NInf | NaN

text \<open>Rounding a real to the nearest integer, ties to the even one.\<close>

definition rne :: "real \<Rightarrow> int" where
  "rne t =
     (let f = \<lfloor>t\<rfloor>; d = t - of_int f in
      if d < 1 / 2 then f else if 1 / 2 < d then f + 1 else if even f then f else f + 1)"

text \<open>
  The exponent of the binade of \<open>x\<close>, not below \<open>-1022\<close> (below \<open>2\<^sup>-\<^sup>1\<^sup>0\<^sup>2\<^sup>2\<close> the
  floats are subnormal and keep the spacing \<open>2\<^sup>-\<^sup>1\<^sup>0\<^sup>7\<^sup>4\<close>), and the spacing of the floats
  there: 53 significant bits.
\<close>

definition expo :: "real \<Rightarrow> int" where
  "expo x = (if x = 0 then - 1022 else max \<lfloor>log 2 \<bar>x\<bar>\<rfloor> (- 1022))"

definition ulp :: "real \<Rightarrow> real" where
  "ulp x = 2 powr (of_int (expo x) - 52)"

text \<open>
  Round to nearest, ties to even; a result of magnitude \<open>2\<^sup>1\<^sup>0\<^sup>2\<^sup>4\<close> or more is an
  infinity.
\<close>

definition nearest :: "real \<Rightarrow> real" where
  "nearest x = of_int (rne (x / ulp x)) * ulp x"

definition overflow64 :: real where
  "overflow64 = 2 ^ 1024"

definition round64 :: "real \<Rightarrow> float64" where
  "round64 x =
     (let v = nearest x in
      if overflow64 \<le> v then PInf else if v \<le> - overflow64 then NInf else Fin v)"

subsection \<open>Arithmetic\<close>

text \<open>
  Each operation on finite operands rounds the exact result; the cases with an
  infinity or \<open>nan\<close> are those of IEEE 754. A zero divisor is read as \<open>+0.0\<close>.
\<close>

fun fneg :: "float64 \<Rightarrow> float64" where
  "fneg (Fin x) = Fin (- x)"
| "fneg PInf = NInf"
| "fneg NInf = PInf"
| "fneg NaN = NaN"

fun fadd :: "float64 \<Rightarrow> float64 \<Rightarrow> float64" where
  "fadd (Fin x) (Fin y) = round64 (x + y)"
| "fadd NaN _ = NaN"
| "fadd _ NaN = NaN"
| "fadd PInf NInf = NaN"
| "fadd NInf PInf = NaN"
| "fadd PInf _ = PInf"
| "fadd _ PInf = PInf"
| "fadd NInf _ = NInf"
| "fadd _ NInf = NInf"

definition fsub :: "float64 \<Rightarrow> float64 \<Rightarrow> float64" where
  "fsub a b = fadd a (fneg b)"

fun fmul :: "float64 \<Rightarrow> float64 \<Rightarrow> float64" where
  "fmul (Fin x) (Fin y) = round64 (x * y)"
| "fmul NaN _ = NaN"
| "fmul _ NaN = NaN"
| "fmul (Fin x) PInf = (if x = 0 then NaN else if 0 < x then PInf else NInf)"
| "fmul (Fin x) NInf = (if x = 0 then NaN else if 0 < x then NInf else PInf)"
| "fmul PInf (Fin y) = (if y = 0 then NaN else if 0 < y then PInf else NInf)"
| "fmul NInf (Fin y) = (if y = 0 then NaN else if 0 < y then NInf else PInf)"
| "fmul PInf PInf = PInf"
| "fmul NInf NInf = PInf"
| "fmul PInf NInf = NInf"
| "fmul NInf PInf = NInf"

fun fdiv :: "float64 \<Rightarrow> float64 \<Rightarrow> float64" where
  "fdiv (Fin x) (Fin y) =
     (if y = 0 then (if x = 0 then NaN else if 0 < x then PInf else NInf)
      else round64 (x / y))"
| "fdiv NaN _ = NaN"
| "fdiv _ NaN = NaN"
| "fdiv (Fin x) PInf = Fin 0"
| "fdiv (Fin x) NInf = Fin 0"
| "fdiv PInf (Fin y) = (if 0 \<le> y then PInf else NInf)"
| "fdiv NInf (Fin y) = (if 0 \<le> y then NInf else PInf)"
| "fdiv PInf PInf = NaN"
| "fdiv NInf NInf = NaN"
| "fdiv PInf NInf = NaN"
| "fdiv NInf PInf = NaN"

text \<open>
  \<open>np.exp\<close> and \<open>np.log\<close> are read as the correctly rounded functions. \<open>np.log(0)\<close> is
  \<open>-inf\<close> and the logarithm of a negative number is \<open>nan\<close> (numpy warns and goes on).
\<close>

fun fexp :: "float64 \<Rightarrow> float64" where
  "fexp (Fin x) = round64 (exp x)"
| "fexp PInf = PInf"
| "fexp NInf = Fin 0"
| "fexp NaN = NaN"

fun flog :: "float64 \<Rightarrow> float64" where
  "flog (Fin x) = (if 0 < x then round64 (ln x) else if x = 0 then NInf else NaN)"
| "flog PInf = PInf"
| "flog NInf = NaN"
| "flog NaN = NaN"

text \<open>IEEE comparison \<open>\<le>\<close>: false as soon as one side is \<open>nan\<close>.\<close>

fun fle :: "float64 \<Rightarrow> float64 \<Rightarrow> bool" where
  "fle (Fin x) (Fin y) = (x \<le> y)"
| "fle NaN _ = False"
| "fle _ NaN = False"
| "fle NInf _ = True"
| "fle _ PInf = True"
| "fle PInf _ = False"
| "fle _ NInf = False"

text \<open>
  \<open>np.sum\<close> of a 1-D array and the row sums of \<open>np.dot\<close> are read as sums from left
  to right. numpy adds long arrays pairwise and leaves the order inside \<open>np.dot\<close> to
  its BLAS; on arrays of one element, such as those of the examples below, there
  is nothing to order.
\<close>

fun fsum :: "float64 list \<Rightarrow> float64" where
  "fsum [] = Fin 0"
| "fsum (x # xs) = foldl fadd x xs"

definition np_dot64 :: "float64 list list \<Rightarrow> float64 list \<Rightarrow> error + float64 list" where
  "np_dot64 X w =
     (if list_all (\<lambda>r. length r = length w) X
      then Inr (map (\<lambda>r. fsum (map2 fmul r w)) X)
      else Inl ValueError)"

subsection \<open>sigmoid and the cost functions over float64\<close>

definition sigmoid64 :: "float64 \<Rightarrow> float64" where
  "sigmoid64 z = fdiv (Fin 1) (fadd (Fin 1) (fexp (fneg z)))"

text \<open>
  \<open>-1 / m\<close> and \<open>lambda_ / (2 * m)\<close> divide by Python ints; the quotient is the
  rounded exact quotient. \<open>w**2\<close> is the rounded square.
\<close>

definition compute_cost64 ::
  "float64 list list \<Rightarrow> float64 list \<Rightarrow> float64 list \<Rightarrow> float64 \<Rightarrow> float64 option
     \<Rightarrow> error + float64" where
  "compute_cost64 X y w b lambda =
     (let m = length y in
      and_then (np_dot64 X w) (\<lambda>xw.
      let z = map (\<lambda>t. fadd t b) xw;
          h = map sigmoid64 z in
      if m = 0 then Inl ZeroDivisionError else
      and_then (broadcast fmul y (map flog h)) (\<lambda>t1.
      and_then (broadcast fmul (map (\<lambda>v. fsub (Fin 1) v) y) (map (\<lambda>v. flog (fsub (Fin 1) v)) h)) (\<lambda>t2.
      and_then (broadcast fadd t1 t2) (\<lambda>t.
      let total_cost = fmul (round64 (- 1 / real m)) (fsum t) in
      Inr total_cost)))))"

definition compute_cost_reg64 ::
  "float64 list list \<Rightarrow> float64 list \<Rightarrow> float64 list \<Rightarrow> float64 \<Rightarrow> float64 option
     \<Rightarrow> error + float64" where
  "compute_cost_reg64 X y w b lambda =
     (let m = length y in
      and_then (np_dot64 X w) (\<lambda>xw.
      let z = map (\<lambda>t. fadd t b) xw;
          y_pred = map sigmoid64 z in
      if m = 0 then Inl ZeroDivisionError else
      and_then (broadcast fmul y (map flog y_pred)) (\<lambda>t1.
      and_then (broadcast fmul (map (\<lambda>v. fsub (Fin 1) v) y) (map (\<lambda>v. flog (fsub (Fin 1) v)) y_pred)) (\<lambda>t2.
      and_then (broadcast fadd t1 t2) (\<lambda>t.
      let cost = fmul (round64 (- 1 / real m)) (fsum t) in
      and_then (case lambda of None \<Rightarrow> Inl TypeError
                | Some l \<Rightarrow> Inr (fdiv l (round64 (real (2 * m))))) (\<lambda>c.
      let reg_term = fmul c (fsum (map (\<lambda>x. fmul x x) w));
          total_cost = fadd cost reg_term in
      Inr total_cost))))))"

section \<open>Notions used in the statements\<close>

text \<open>
  A dataset of \<open>m\<close> examples with \<open>n\<close> features: \<open>X\<close> has \<open>m\<close> rows of length
  \<open>n\<close> and \<open>y\<close> has \<open>m\<close> labels.
\<close>

definition dataset :: "'a list list \<Rightarrow> 'a list \<Rightarrow> nat \<Rightarrow> nat \<Rightarrow> bool" where
  "dataset X y m n \<longleftrightarrow> length X = m \<and> length y = m \<and> list_all (\<lambda>r. length r = n) X"

text \<open>
  The specification's \<open>X\<^sub>i \<cdot> w + b\<close>, written with indexed sums; the predicted
  probability of example \<open>i\<close> is \<open>sigmoid\<close> of it.
\<close>

definition linear_score :: "real list list \<Rightarrow> real list \<Rightarrow> real \<Rightarrow> nat \<Rightarrow> nat \<Rightarrow> real" where
  "linear_score X w b n i = (\<Sum>j<n. X ! i ! j * w ! j) + b"

text \<open>Names for the intermediate arrays of the cost and gradient functions.\<close>

definition probabilities :: "real list list \<Rightarrow> real list \<Rightarrow> real \<Rightarrow> real list" where
  "probabilities X w b = map sigmoid (map (\<lambda>t. t + b) (map (\<lambda>r. sum_list (map2 (*) r w)) X))"

definition cross_entropy_terms :: "real list \<Rightarrow> real list \<Rightarrow> real list" where
  "cross_entropy_terms y h =
     map2 (+) (map2 (*) y (map ln h)) (map2 (*) (map (\<lambda>v. 1 - v) y) (map (\<lambda>v. ln (1 - v)) h))"

definition residuals :: "real list list \<Rightarrow> real list \<Rightarrow> real list \<Rightarrow> real \<Rightarrow> real list" where
  "residuals X y w b = map2 (-) (probabilities X w b) y"

definition weighted_columns :: "real list list \<Rightarrow> nat \<Rightarrow> real list \<Rightarrow> real list" where
  "weighted_columns X n d = map (\<lambda>j. sum_list (map2 (*) (map (\<lambda>r. r ! j) X) d)) [0..<n]"

text \<open>
  The specification's iteration: obtain \<open>(dj_db, dj_dw)\<close> at the current parameters,
  then \<open>w \<leftarrow> w - \<alpha> dj_dw\<close> and \<open>b \<leftarrow> b - \<alpha> dj_db\<close>. Here \<open>g w b\<close> is the pair the
  gradient function returns at \<open>(w, b)\<close>.
\<close>

definition gd_step ::
  "(real list \<Rightarrow> real \<Rightarrow> real \<times> real list) \<Rightarrow> real \<Rightarrow> real list \<times> real \<Rightarrow> real list \<times> real" where
  "gd_step g alpha p =
     (case p of (w, b) \<Rightarrow> case g w b of (dj_db, dj_dw) \<Rightarrow>
        (map2 (-) w (map (\<lambda>t. alpha * t) dj_dw), b - alpha * dj_db))"

text \<open>
  A supplied gradient function that, on this dataset and every weight vector of
  length \<open>n\<close>, returns the pair \<open>g w b\<close> with a weight gradient of length \<open>n\<close>; a
  supplied cost function that returns \<open>c w b\<close>.
\<close>

definition returns_gradient ::
  "gradient_fn \<Rightarrow> real list list \<Rightarrow> real list \<Rightarrow> real option \<Rightarrow> nat
     \<Rightarrow> (real list \<Rightarrow> real \<Rightarrow> real \<times> real list) \<Rightarrow> bool" where
  "returns_gradient gradient_function X y lambda n g \<longleftrightarrow>
     (\<forall>w b. length w = n \<longrightarrow>
        gradient_function X y w b lambda = Inr (g w b) \<and> length (snd (g w b)) = n)"

definition returns_cost ::
  "cost_fn \<Rightarrow> real list list \<Rightarrow> real list \<Rightarrow> real option \<Rightarrow> nat
     \<Rightarrow> (real list \<Rightarrow> real \<Rightarrow> real) \<Rightarrow> bool" where
  "returns_cost cost_function X y lambda n c \<longleftrightarrow>
     (\<forall>w b. length w = n \<longrightarrow> cost_function X y w b lambda = Inr (c w b))"

text \<open>
  The reals that are float64 values: an integer of magnitude below \<open>2\<^sup>5\<^sup>3\<close> times
  a power of two with exponent from \<open>-1074\<close> to \<open>971\<close>. A \<open>float64\<close> is well formed when
  its finite value is one of them; it is nonnegative when it is not below zero.
\<close>

definition is_float64 :: "real \<Rightarrow> bool" where
  "is_float64 v \<longleftrightarrow>
     (\<exists>n e. \<bar>n\<bar> < 2 ^ 53 \<and> - 1022 \<le> e \<and> e \<le> 1023 \<and> v = of_int n * 2 powr (of_int e - 52))"

fun wf64 :: "float64 \<Rightarrow> bool" where
  "wf64 (Fin v) = is_float64 v"
| "wf64 PInf = True"
| "wf64 NInf = True"
| "wf64 NaN = True"


text \<open>The unregularized cost over float64, on arrays whose shapes fit.\<close>

definition cost64 :: "float64 list list \<Rightarrow> float64 list \<Rightarrow> float64 list \<Rightarrow> float64 \<Rightarrow> float64" where
  "cost64 X y w b =
     (let h = map sigmoid64 (map (\<lambda>t. fadd t b) (map (\<lambda>r. fsum (map2 fmul r w)) X)) in
      fmul (round64 (- 1 / real (length y)))
        (fsum (map2 fadd (map2 fmul y (map flog h))
           (map2 fmul (map (\<lambda>v. fsub (Fin 1) v) y) (map (\<lambda>v. flog (fsub (Fin 1) v)) h)))))"

section \<open>Properties\<close>

subsection \<open>sigmoid\<close>

lemma sigmoid_pos: "0 < sigmoid z"
  by (simp add: sigmoid_def add_pos_pos)

lemma sigmoid_less_one: "sigmoid z < 1"
  by (simp add: sigmoid_def add_pos_pos)

text \<open>
  Over the reals \<open>sigmoid z\<close> lies strictly between 0 and 1, \<open>sigmoid 0 = 0.5\<close> and
  \<open>sigmoid (- z) = 1 - sigmoid z\<close>.
\<close>

lemma sigmoid_range_half_symmetric:
  "0 < sigmoid z \<and> sigmoid z < 1 \<and> sigmoid 0 = 1 / 2 \<and> sigmoid (- z) = 1 - sigmoid z"
proof -
  have pos: "0 < 1 + exp z" "0 < 1 + exp (- z)"
    by (simp_all add: add_pos_pos)
  have "sigmoid (- z) = 1 / (1 + exp z)"
    by (simp add: sigmoid_def)
  also have "\<dots> = exp (- z) / (1 + exp (- z))"
    using pos by (simp add: exp_minus field_simps)
  also have "\<dots> = 1 - sigmoid z"
    using pos by (simp add: sigmoid_def field_simps)
  finally have sym: "sigmoid (- z) = 1 - sigmoid z" .
  have half: "sigmoid 0 = 1 / 2"
    by (simp add: sigmoid_def)
  from sigmoid_pos sigmoid_less_one half sym show ?thesis
    by blast
qed

subsection \<open>What the array operations return on arrays that fit\<close>

lemma and_then_Inr: "and_then (Inr v) f = f v"
  by (simp add: and_then_def)

lemma np_dot_fits:
  "list_all (\<lambda>r. length r = length w) X \<Longrightarrow>
   np_dot X w = Inr (map (\<lambda>r. sum_list (map2 (*) r w)) X)"
  by (simp add: np_dot_def)

lemma np_dot_T_fits:
  "length X = length v \<Longrightarrow>
   np_dot_T X n v = Inr (map (\<lambda>j. sum_list (map2 (*) (map (\<lambda>r. r ! j) X) v)) [0..<n])"
  by (simp add: np_dot_T_def)

lemma broadcast_same_length:
  "length xs = length ys \<Longrightarrow> broadcast f xs ys = Inr (map2 f xs ys)"
  by (simp add: broadcast_def)

lemma length_probabilities: "length (probabilities X w b) = length X"
  by (simp add: probabilities_def)

lemma length_weighted_columns: "length (weighted_columns X n d) = n"
  by (simp add: weighted_columns_def)

lemma length_residuals: "dataset X y m n \<Longrightarrow> length (residuals X y w b) = m"
  by (simp add: residuals_def dataset_def length_probabilities)

subsection \<open>The values of the cost and gradient functions on a dataset\<close>

lemma compute_cost_value:
  assumes "dataset X y m n" "0 < m" "length w = n"
  shows "compute_cost X y w b lambda =
           Inr (- 1 / real m * sum_list (cross_entropy_terms y (probabilities X w b)))"
  using assms
  by (simp add: compute_cost_def dataset_def np_dot_fits broadcast_same_length and_then_Inr
      cross_entropy_terms_def probabilities_def Let_def)

lemma compute_cost_reg_value:
  assumes "dataset X y m n" "0 < m" "length w = n"
  shows "compute_cost_reg X y w b (Some l) =
           Inr ((- 1 / real m) * sum_list (cross_entropy_terms y (probabilities X w b))
                + (l / (2 * real m)) * sum_list (map (\<lambda>x. x ^ 2) w))"
  using assms
  by (simp add: compute_cost_reg_def dataset_def np_dot_fits broadcast_same_length and_then_Inr
      cross_entropy_terms_def probabilities_def Let_def)

lemma compute_gradient_value:
  assumes "dataset X y m n" "0 < m" "length w = n"
  shows "compute_gradient X y w b lambda =
           Inr (1 / real m * sum_list (residuals X y w b),
                map (\<lambda>t. 1 / real m * t) (weighted_columns X n (residuals X y w b)))"
  using assms
  by (simp add: compute_gradient_def dataset_def np_dot_fits broadcast_same_length and_then_Inr
      np_dot_T_fits residuals_def weighted_columns_def probabilities_def Let_def)

lemma compute_gradient_reg_value:
  assumes "dataset X y m n" "0 < m" "length w = n"
  shows "compute_gradient_reg X y w b (Some l) =
           Inr (1 / real m * sum_list (residuals X y w b),
                map2 (+) (map (\<lambda>t. 1 / real m * t) (weighted_columns X n (residuals X y w b)))
                         (map ((*) (l / real m)) w))"
  using assms
  by (simp add: compute_gradient_reg_def dataset_def np_dot_fits broadcast_same_length and_then_Inr
      np_dot_T_fits residuals_def weighted_columns_def probabilities_def Let_def o_def)

subsection \<open>Regularization strength zero\<close>

text \<open>
  Over the reals, on a dataset of \<open>m \<ge> 1\<close> examples, \<open>compute_cost_reg\<close> with
  \<open>lambda_ = 0\<close> and \<open>compute_cost\<close> return the same cost.
\<close>

lemma compute_cost_reg_zero_lambda:
  assumes "dataset X y m n" "1 \<le> m" "length w = n"
  shows "\<exists>c. compute_cost X y w b lambda = Inr c \<and> compute_cost_reg X y w b (Some 0) = Inr c"
  using assms by (simp add: compute_cost_value [of X y m n] compute_cost_reg_value [of X y m n])

lemma map2_add_zero:
  "length (xs :: real list) = length (ws :: real list) \<Longrightarrow> map2 (+) xs (map ((*) 0) ws) = xs"
  by (induction xs ws rule: list_induct2) simp_all

text \<open>
  Claim C5. For every dataset \<open>(X, y)\<close> with \<open>m \<ge> 1\<close> examples, weight vector \<open>w\<close> and
  bias \<open>b\<close>, \<open>compute_gradient_reg(X, y, w, b, 0)\<close> returns the same pair
  \<open>(dj_db, dj_dw)\<close> as \<open>compute_gradient(X, y, w, b)\<close>.
\<close>

theorem compute_gradient_reg_zero_lambda:
  assumes "dataset X y m n" "1 \<le> m" "length w = n"
  shows "\<exists>g. compute_gradient X y w b lambda = Inr g
             \<and> compute_gradient_reg X y w b (Some 0) = Inr g"
proof -
  let ?dw = "map (\<lambda>t. 1 / real m * t) (weighted_columns X n (residuals X y w b))"
  from assms have m: "0 < m" by simp
  have "length ?dw = length w"
    using assms by (simp add: length_weighted_columns)
  then have "map2 (+) ?dw (map ((*) (0 / real m)) w) = ?dw"
    using map2_add_zero [of ?dw w] by simp
  then show ?thesis
    using assms(1,3) m
    by (simp only: compute_gradient_value [of X y m n] compute_gradient_reg_value [of X y m n])
      simp
qed

theorem compute_gradient_reg_zero_lambda_witness:
  "\<exists>g. compute_gradient [[1, 2], [3, 4]] [0, 1] [1, -1] 2 None = Inr g
     \<and> compute_gradient_reg [[1, 2], [3, 4]] [0, 1] [1, -1] 2 (Some 0) = Inr g"
  using compute_gradient_reg_zero_lambda [of "[[1, 2], [3, 4]]" "[0, 1]" 2 2 "[1, -1]" 2 None]
  by (simp add: dataset_def)

subsection \<open>The regularized gradient as indexed sums\<close>

lemma dot_as_sum:
  "length r = n \<Longrightarrow> length w = n \<Longrightarrow> sum_list (map2 (*) r w) = (\<Sum>j<n. r ! j * w ! (j::nat))"
  for r w :: "real list"
proof -
  assume a: "length r = n" "length w = n"
  have "sum_list (map2 (*) r w) = (\<Sum>j = 0..<length (map2 (*) r w). map2 (*) r w ! j)"
    by (rule sum_list_sum_nth)
  also have "\<dots> = (\<Sum>j = 0..<n. r ! j * w ! j)"
    using a by simp
  finally show ?thesis
    by (simp add: atLeast0LessThan)
qed

lemma probabilities_nth:
  assumes "dataset X y m n" "length w = n" "i < m"
  shows "probabilities X w b ! i = sigmoid (linear_score X w b n i)"
  using assms
  by (simp add: probabilities_def linear_score_def dataset_def dot_as_sum list_all_length)

lemma residuals_nth:
  assumes "dataset X y m n" "length w = n" "i < m"
  shows "residuals X y w b ! i = sigmoid (linear_score X w b n i) - y ! i"
  using assms probabilities_nth [OF assms, of b]
  by (simp add: residuals_def dataset_def length_probabilities)

lemma sum_residuals:
  assumes "dataset X y m n" "length w = n"
  shows "sum_list (residuals X y w b) = (\<Sum>i<m. sigmoid (linear_score X w b n i) - y ! i)"
proof -
  have "sum_list (residuals X y w b) = (\<Sum>i = 0..<m. residuals X y w b ! i)"
    using length_residuals [OF assms(1), of w b] by (simp add: sum_list_sum_nth)
  also have "\<dots> = (\<Sum>i = 0..<m. sigmoid (linear_score X w b n i) - y ! i)"
    using assms by (intro sum.cong) (simp_all add: residuals_nth [OF assms])
  finally show ?thesis
    by (simp add: atLeast0LessThan)
qed

lemma weighted_columns_nth:
  assumes "dataset X y m n" "length w = n" "j < n"
  shows "weighted_columns X n (residuals X y w b) ! j =
           (\<Sum>i<m. X ! i ! j * (sigmoid (linear_score X w b n i) - y ! i))"
proof -
  let ?d = "residuals X y w b"
  have lenX: "length X = m"
    using assms(1) by (simp add: dataset_def)
  have len: "length (map (\<lambda>r. r ! j) X) = m" "length ?d = m"
    using lenX length_residuals [OF assms(1), of w b] by simp_all
  have "weighted_columns X n ?d ! j = sum_list (map2 (*) (map (\<lambda>r. r ! j) X) ?d)"
    using assms(3) by (simp add: weighted_columns_def)
  also have "\<dots> = (\<Sum>i<m. map (\<lambda>r. r ! j) X ! i * ?d ! i)"
    using len by (rule dot_as_sum)
  also have "\<dots> = (\<Sum>i<m. X ! i ! j * (sigmoid (linear_score X w b n i) - y ! i))"
    using lenX by (intro sum.cong) (simp_all add: residuals_nth [OF assms(1,2)])
  finally show ?thesis .
qed

text \<open>
  Claim C6. For every dataset \<open>(X, y)\<close> with \<open>m \<ge> 1\<close> examples, weight vector \<open>w\<close>,
  bias \<open>b\<close> and regularization strength \<open>\<lambda>\<close>, \<open>compute_gradient_reg\<close> returns
  \<open>dj_db = (1/m) \<Sum>\<^sub>i (h\<^sub>i - y\<^sub>i)\<close> and
  \<open>dj_dw\<^sub>j = (1/m) \<Sum>\<^sub>i X\<^sub>i\<^sub>j (h\<^sub>i - y\<^sub>i) + (\<lambda>/m) w\<^sub>j\<close>, where \<open>h\<^sub>i = sigmoid (X\<^sub>i \<cdot> w + b)\<close>;
  the regularization term enters the weight gradient only, and \<open>dj_db\<close> is the
  bias gradient that \<open>compute_gradient\<close> returns.
\<close>

theorem compute_gradient_reg_formula:
  assumes "dataset X y m n" "1 \<le> m" "length w = n"
  shows "\<exists>dj_db dj_dw.
           compute_gradient_reg X y w b (Some l) = Inr (dj_db, dj_dw)
         \<and> dj_db = (1 / real m) * (\<Sum>i<m. sigmoid (linear_score X w b n i) - y ! i)
         \<and> length dj_dw = n
         \<and> (\<forall>j<n. dj_dw ! j =
               (1 / real m) * (\<Sum>i<m. X ! i ! j * (sigmoid (linear_score X w b n i) - y ! i))
               + (l / real m) * w ! j)
         \<and> (\<exists>g. compute_gradient X y w b lambda = Inr (dj_db, g))"
proof -
  let ?d = "residuals X y w b"
  let ?db = "1 / real m * sum_list ?d"
  let ?dw = "map2 (+) (map (\<lambda>t. 1 / real m * t) (weighted_columns X n ?d))
               (map ((*) (l / real m)) w)"
  from assms have m: "0 < m" by simp
  have run: "compute_gradient_reg X y w b (Some l) = Inr (?db, ?dw)"
    using assms(1) m assms(3) by (rule compute_gradient_reg_value)
  have plain: "\<exists>g. compute_gradient X y w b lambda = Inr (?db, g)"
    using compute_gradient_value [OF assms(1) m assms(3)] by simp
  have db: "?db = (1 / real m) * (\<Sum>i<m. sigmoid (linear_score X w b n i) - y ! i)"
    by (simp only: sum_residuals [OF assms(1,3)])
  have len: "length ?dw = n"
    using assms(3) by (simp add: length_weighted_columns)
  have dw: "?dw ! j =
              (1 / real m) * (\<Sum>i<m. X ! i ! j * (sigmoid (linear_score X w b n i) - y ! i))
              + (l / real m) * w ! j" if "j < n" for j
    using that assms(3) weighted_columns_nth [OF assms(1,3) that, of b]
    by (simp add: length_weighted_columns)
  from run plain db len dw show ?thesis
    by blast
qed

theorem compute_gradient_reg_formula_witness:
  "\<exists>dj_db dj_dw.
     compute_gradient_reg [[1, 2], [3, 4]] [0, 1] [1, -1] 2 (Some 3) = Inr (dj_db, dj_dw)
     \<and> dj_db = (1 / 2) * (\<Sum>i<2. sigmoid (linear_score [[1, 2], [3, 4]] [1, -1] 2 2 i) - [0, 1] ! i)
     \<and> length dj_dw = 2"
  using compute_gradient_reg_formula [of "[[1, 2], [3, 4]]" "[0, 1]" 2 2 "[1, -1]" 2 3 None]
  by (simp add: dataset_def) blast

subsection \<open>Regularization raises the cost\<close>

text \<open>
  Over the reals, on a dataset of \<open>m \<ge> 1\<close> examples and with \<open>\<Sum>\<^sub>j w\<^sub>j\<^sup>2 > 0\<close>, the
  cost with \<open>lambda_ = 10\<close> is strictly greater than the cost with \<open>lambda_ = 0\<close>.
\<close>

lemma compute_cost_reg_monotone:
  assumes "dataset X y m n" "1 \<le> m" "length w = n" "0 < sum_list (map (\<lambda>x. x ^ 2) w)"
  shows "\<exists>c0 c10. compute_cost_reg X y w b (Some 0) = Inr c0
           \<and> compute_cost_reg X y w b (Some 10) = Inr c10 \<and> c0 < c10"
  using assms by (simp add: compute_cost_reg_value [of X y m n])

subsection \<open>The unused parameter\<close>

text \<open>
  Claim C10. \<open>compute_cost\<close> and \<open>compute_gradient\<close> ignore \<open>lambda_\<close>: for every
  \<open>X\<close>, \<open>y\<close>, \<open>w\<close>, \<open>b\<close> and any two values of \<open>lambda_\<close> the results are the same
  (the same value, or the same exception).
\<close>

theorem lambda_ignored:
  "compute_cost X y w b lambda1 = compute_cost X y w b lambda2
   \<and> compute_gradient X y w b lambda1 = compute_gradient X y w b lambda2"
  by (simp add: compute_cost_def compute_gradient_def)

subsection \<open>Gradient descent: the loop\<close>

text \<open>The loop writes to the array \<open>w\<close> only, and allocates nothing.\<close>

lemma gd_loop_frame:
  "gd_loop X y cf gf alpha lambda w is (s, b, J) = Inr (s', b', J') \<Longrightarrow>
   next_free s' = next_free s \<and> (\<forall>a. a \<noteq> w \<longrightarrow> cells s' a = cells s a)"
proof (induction "is" arbitrary: s b J)
  case Nil
  then show ?case by simp
next
  case (Cons i "is")
  from Cons.prems obtain db dw s1 c where
    g: "gf X y (cells s w) b lambda = Inr (db, dw)" and
    u: "np_isub s w (map (\<lambda>t. alpha * t) dw) = Inr s1" and
    c: "cf X y (cells s1 w) (b - alpha * db) lambda = Inr c" and
    r: "gd_loop X y cf gf alpha lambda w is (s1, b - alpha * db, J[i := c]) = Inr (s', b', J')"
    by (auto simp: and_then_def Let_def split: sum.splits prod.splits)
  from u have "next_free s1 = next_free s \<and> (\<forall>a. a \<noteq> w \<longrightarrow> cells s1 a = cells s a)"
    by (auto simp: np_isub_def Let_def split: if_splits)
  with Cons.IH [OF r] show ?case by simp
qed

text \<open>
  With supplied functions that return, the loop over the indices \<open>k, \<dots>, k + d - 1\<close>
  takes \<open>d\<close> steps of the specification and stores the cost after step \<open>i + 1\<close> at
  index \<open>k + i\<close>, leaving the entries below \<open>k\<close> as they were.
\<close>

lemma gd_loop_run:
  assumes grad: "returns_gradient gf X y lambda n g"
      and cost: "returns_cost cf X y lambda n c"
  shows "length (cells s w) = n \<Longrightarrow> length J = k + d \<Longrightarrow>
    \<exists>s' b' J'. gd_loop X y cf gf alpha lambda w [k..<k + d] (s, b, J) = Inr (s', b', J')
      \<and> (cells s' w, b') = (gd_step g alpha ^^ d) (cells s w, b)
      \<and> length J' = k + d
      \<and> (\<forall>i<k. J' ! i = J ! i)
      \<and> (\<forall>i<d. J' ! (k + i) = (case (gd_step g alpha ^^ Suc i) (cells s w, b) of (w', b') \<Rightarrow> c w' b'))"
proof (induction d arbitrary: s b J k)
  case 0
  then show ?case by simp
next
  case (Suc d)
  let ?wv = "cells s w"
  obtain db dw where gwb: "g ?wv b = (db, dw)" by (cases "g ?wv b")
  from grad Suc.prems(1)
  have "gf X y ?wv b lambda = Inr (g ?wv b) \<and> length (snd (g ?wv b)) = n"
    by (simp add: returns_gradient_def)
  with gwb have gf: "gf X y ?wv b lambda = Inr (db, dw)" and ldw: "length dw = n"
    by simp_all
  let ?w1 = "map2 (-) ?wv (map (\<lambda>t. alpha * t) dw)"
  let ?b1 = "b - alpha * db"
  let ?s1 = "s\<lparr>cells := (cells s)(w := ?w1)\<rparr>"
  have step: "gd_step g alpha (?wv, b) = (?w1, ?b1)"
    by (simp add: gd_step_def gwb)
  have isub: "np_isub s w (map (\<lambda>t. alpha * t) dw) = Inr ?s1"
    using ldw Suc.prems(1) by (simp add: np_isub_def)
  have l1: "length (cells ?s1 w) = n"
    using ldw Suc.prems(1) by simp
  from cost l1 have cf: "cf X y (cells ?s1 w) ?b1 lambda = Inr (c ?w1 ?b1)"
    by (simp add: returns_cost_def)
  let ?J1 = "J[k := c ?w1 ?b1]"
  have lJ1: "length ?J1 = Suc k + d" using Suc.prems(2) by simp
  from Suc.IH [OF l1 lJ1, of ?b1] obtain s' b' J' where
    run: "gd_loop X y cf gf alpha lambda w [Suc k..<Suc k + d] (?s1, ?b1, ?J1) = Inr (s', b', J')" and
    par: "(cells s' w, b') = (gd_step g alpha ^^ d) (cells ?s1 w, ?b1)" and
    len: "length J' = Suc k + d" and
    low: "\<forall>i<Suc k. J' ! i = ?J1 ! i" and
    high: "\<forall>i<d. J' ! (Suc k + i) = (case (gd_step g alpha ^^ Suc i) (cells ?s1 w, ?b1) of (w', b') \<Rightarrow> c w' b')"
    by blast
  have upt: "[k..<k + Suc d] = k # [Suc k..<Suc k + d]"
    by (simp add: upt_conv_Cons)
  have run': "gd_loop X y cf gf alpha lambda w [k..<k + Suc d] (s, b, J) = Inr (s', b', J')"
    unfolding upt using run gf isub cf by (simp add: and_then_Inr Let_def)
  have par': "(cells s' w, b') = (gd_step g alpha ^^ Suc d) (?wv, b)"
    using par step by (simp add: funpow_swap1)
  have low': "\<forall>i<k. J' ! i = J ! i"
    using low by simp
  have high': "J' ! (k + i) = (case (gd_step g alpha ^^ Suc i) (?wv, b) of (w', b') \<Rightarrow> c w' b')"
    if "i < Suc d" for i
  proof (cases i)
    case 0
    from low have "J' ! k = ?J1 ! k" by simp
    also have "\<dots> = c ?w1 ?b1" using Suc.prems(2) by simp
    finally show ?thesis using 0 step by simp
  next
    case (Suc i')
    with that have "i' < d" by simp
    with high have "J' ! (Suc k + i') = (case (gd_step g alpha ^^ Suc i') (cells ?s1 w, ?b1) of (w', b') \<Rightarrow> c w' b')"
      by blast
    then show ?thesis using Suc step by (simp add: funpow_swap1)
  qed
  have len': "length J' = k + Suc d"
    using len by simp
  from run' par' len' low' high' show ?case
    by blast
qed

lemma gradient_descent_unfold:
  "gradient_descent s X y w_in b_in cost_function gradient_function alpha num_iters lambda =
     (if num_iters < 0 then Inl ValueError
      else and_then
        (gd_loop X y cost_function gradient_function alpha lambda (next_free s) [0..<nat num_iters]
           (fst (ndarray_copy s w_in), b_in, replicate (nat num_iters) 0))
        (\<lambda>(s', b', J'). Inr (s', next_free s, b', J')))"
  by (simp add: gradient_descent_def ndarray_copy_def Let_def)

lemma compute_gradient_returns:
  assumes "dataset X y m n" "0 < m"
  shows "returns_gradient compute_gradient X y lambda n
           (\<lambda>w b. (1 / real m * sum_list (residuals X y w b),
                   map (\<lambda>t. 1 / real m * t) (weighted_columns X n (residuals X y w b))))"
  unfolding returns_gradient_def
  using compute_gradient_value [OF assms] by (simp add: length_weighted_columns)

lemma compute_cost_returns:
  assumes "dataset X y m n" "0 < m"
  shows "returns_cost compute_cost X y lambda n
           (\<lambda>w b. - 1 / real m * sum_list (cross_entropy_terms y (probabilities X w b)))"
  unfolding returns_cost_def
  using compute_cost_value [OF assms] by simp

lemma gradient_descent_returns:
  assumes "returns_gradient gradient_function X y lambda n g"
      and "returns_cost cost_function X y lambda n c"
      and "length (cells s w_in) = n"
  shows "\<exists>s' b J.
           gradient_descent s X y w_in b_in cost_function gradient_function alpha (int N) lambda
             = Inr (s', next_free s, b, J)"
proof -
  let ?s1 = "fst (ndarray_copy s w_in)"
  have l1: "length (cells ?s1 (next_free s)) = n"
    using assms(3) by (simp add: ndarray_copy_def)
  have lJ: "length (replicate N (0::real)) = 0 + N"
    by simp
  from gd_loop_run [OF assms(1,2) l1 lJ, where b = b_in and alpha = alpha] obtain s' b' J' where
    "gd_loop X y cost_function gradient_function alpha lambda (next_free s) [0..<0 + N]
       (?s1, b_in, replicate N 0) = Inr (s', b', J')"
    by blast
  then show ?thesis
    by (simp add: gradient_descent_unfold and_then_Inr)
qed

text \<open>
  Claim C2. With supplied cost and gradient functions that return (the gradient with
  the shape of \<open>w\<close>), \<open>gradient_descent\<close> run with \<open>num_iters = N\<close> performs exactly
  \<open>N\<close> iterations: each obtains \<open>(dj_db, dj_dw)\<close> from the gradient function at the
  current parameters, updates \<open>w\<close> to \<open>w - \<alpha> dj_dw\<close> and \<open>b\<close> to \<open>b - \<alpha> dj_db\<close>, and
  stores the cost at the updated parameters at index \<open>i\<close> of the loss history, which
  has length \<open>N\<close>.
\<close>

theorem gradient_descent_iterates:
  assumes "returns_gradient gradient_function X y lambda n g"
      and "returns_cost cost_function X y lambda n c"
      and "length (cells s w_in) = n"
  shows "\<exists>s' w b J.
           gradient_descent s X y w_in b_in cost_function gradient_function alpha (int N) lambda
             = Inr (s', w, b, J)
         \<and> (cells s' w, b) = (gd_step g alpha ^^ N) (cells s w_in, b_in)
         \<and> length J = N
         \<and> (\<forall>i<N. J ! i =
               (case (gd_step g alpha ^^ Suc i) (cells s w_in, b_in) of (w', b') \<Rightarrow> c w' b'))"
proof -
  let ?s1 = "fst (ndarray_copy s w_in)"
  let ?w = "snd (ndarray_copy s w_in)"
  have copy: "cells ?s1 ?w = cells s w_in"
    by (simp add: ndarray_copy_def)
  then have l1: "length (cells ?s1 ?w) = n"
    using assms(3) by simp
  have lJ: "length (replicate N (0::real)) = 0 + N"
    by simp
  from gd_loop_run [OF assms(1,2) l1 lJ, where b = b_in and alpha = alpha] obtain s' b' J' where
    run: "gd_loop X y cost_function gradient_function alpha lambda ?w [0..<0 + N]
            (?s1, b_in, replicate N 0) = Inr (s', b', J')" and
    par: "(cells s' ?w, b') = (gd_step g alpha ^^ N) (cells ?s1 ?w, b_in)" and
    len: "length J' = 0 + N" and
    high: "\<forall>i<N. J' ! (0 + i) =
             (case (gd_step g alpha ^^ Suc i) (cells ?s1 ?w, b_in) of (w', b') \<Rightarrow> c w' b')"
    by blast
  have "gradient_descent s X y w_in b_in cost_function gradient_function alpha (int N) lambda
          = Inr (s', ?w, b', J')"
    using run by (simp add: gradient_descent_def and_then_Inr split_beta Let_def)
  moreover from par copy have "(cells s' ?w, b') = (gd_step g alpha ^^ N) (cells s w_in, b_in)"
    by simp
  moreover from len have "length J' = N"
    by simp
  moreover from high copy have "\<forall>i<N. J' ! i =
      (case (gd_step g alpha ^^ Suc i) (cells s w_in, b_in) of (w', b') \<Rightarrow> c w' b')"
    by simp
  ultimately show ?thesis
    by blast
qed

theorem gradient_descent_iterates_witness:
  "\<exists>s' w b J.
     gradient_descent \<lparr>cells = (\<lambda>a. [])(0 := [0, 0]), next_free = 1\<rparr> [[1, 2], [3, 4]] [0, 1] 0 0
       compute_cost compute_gradient (1 / 10) 2 None = Inr (s', w, b, J)
     \<and> length J = 2"
proof -
  have d: "dataset [[1, 2], [3, 4]] [0, 1] 2 2"
    by (simp add: dataset_def)
  have m: "0 < (2::nat)"
    by simp
  have l: "length (cells \<lparr>cells = (\<lambda>a. [])(0 := [0, 0]), next_free = 1\<rparr> 0) = 2"
    by simp
  note g = compute_gradient_returns [OF d m, where lambda = None]
  note c = compute_cost_returns [OF d m, where lambda = None]
  from gradient_descent_iterates [OF g c l, where N = 2 and b_in = 0 and alpha = "1 / 10"]
  show ?thesis
    by simp blast
qed

text \<open>
  Claim C3. Called with \<open>num_iters = 0\<close>, \<open>gradient_descent\<close> returns a \<open>w\<close> with the
  contents of \<open>w_in\<close>, \<open>b = b_in\<close> and a loss history of length 0, whatever the
  dataset, the learning rate and the supplied functions.
\<close>

theorem gradient_descent_zero_iterations:
  "\<exists>s' w. gradient_descent s X y w_in b_in cost_function gradient_function alpha 0 lambda
             = Inr (s', w, b_in, [])
          \<and> cells s' w = cells s w_in"
  by (simp add: gradient_descent_def ndarray_copy_def and_then_Inr)

text \<open>
  Claim C9. \<open>gradient_descent\<close> leaves the caller's \<open>w_in\<close> unchanged: the returned
  \<open>w\<close> is another array (the copy), and when \<open>gradient_descent\<close> returns, the array
  at \<open>w_in\<close> holds what it held at the call, for every iteration count.
\<close>

theorem gradient_descent_keeps_w_in:
  assumes "gradient_descent s X y w_in b_in cost_function gradient_function alpha num_iters lambda
             = Inr (s', w, b, J)"
      and "w_in < next_free s"
  shows "w \<noteq> w_in \<and> cells s' w_in = cells s w_in"
proof -
  let ?s1 = "fst (ndarray_copy s w_in)"
  let ?run = "gd_loop X y cost_function gradient_function alpha lambda (next_free s)
                [0..<nat num_iters] (?s1, b_in, replicate (nat num_iters) 0)"
  from assms(1) have res: "and_then ?run (\<lambda>(s', b', J'). Inr (s', next_free s, b', J'))
                             = Inr (s', w, b, J)"
    by (simp add: gradient_descent_unfold split: if_splits)
  then have run: "?run = Inr (s', b, J)" and w: "w = next_free s"
    by (cases ?run; simp add: and_then_def split: prod.splits)+
  have copy: "cells ?s1 w_in = cells s w_in"
    using assms(2) by (simp add: ndarray_copy_def)
  from assms(2) w have ne: "w_in \<noteq> next_free s" "w \<noteq> w_in"
    by simp_all
  from gd_loop_frame [OF run] ne(1) have "cells s' w_in = cells ?s1 w_in"
    by blast
  with copy ne(2) show ?thesis
    by simp
qed

theorem gradient_descent_keeps_w_in_witness:
  "\<exists>s' w b J.
     gradient_descent \<lparr>cells = (\<lambda>a. [])(0 := [0, 0]), next_free = 1\<rparr> [[1, 2], [3, 4]] [0, 1] 0 0
       compute_cost compute_gradient (1 / 10) 2 None = Inr (s', w, b, J)
     \<and> w \<noteq> 0 \<and> cells s' 0 = [0, 0]"
proof -
  let ?s = "\<lparr>cells = (\<lambda>a. [])(0 := [0, 0]), next_free = 1\<rparr>"
  have d: "dataset [[1, 2], [3, 4]] [0, 1] 2 2"
    by (simp add: dataset_def)
  have m: "0 < (2::nat)"
    by simp
  have l: "length (cells ?s 0) = 2"
    by simp
  note g = compute_gradient_returns [OF d m, where lambda = None]
  note c = compute_cost_returns [OF d m, where lambda = None]
  from gradient_descent_returns [OF g c l, where N = 2 and b_in = 0 and alpha = "1 / 10"]
  obtain s' b J where
    run: "gradient_descent ?s [[1, 2], [3, 4]] [0, 1] 0 0 compute_cost compute_gradient (1 / 10) 2 None
            = Inr (s', next_free ?s, b, J)"
    by auto
  have v: "0 < next_free ?s"
    by simp
  from gradient_descent_keeps_w_in [OF run v] have "next_free ?s \<noteq> 0 \<and> cells s' 0 = [0, 0]"
    by simp
  with run show ?thesis
    by blast
qed

subsection \<open>predict\<close>

lemma predict_value:
  "list_all (\<lambda>r. length r = length w) X \<Longrightarrow>
   predict X w b =
     Inr (Arr1 (map (\<lambda>r. if sigmoid (sum_list (map2 (*) r w) + b) \<ge> 0.5 then 1 else 0) X))"
  by (simp add: predict_def np_dot_fits and_then_Inr Let_def o_def)

text \<open>
  On a feature matrix of shape \<open>(m, n)\<close> and a weight vector of length \<open>n\<close>, the
  result is a 1-D array of \<open>m\<close> entries, entry \<open>i\<close> being 1 when
  \<open>sigmoid (X\<^sub>i \<cdot> w + b) \<ge> 0.5\<close> and 0 otherwise.
\<close>

lemma predict_entries:
  assumes "list_all (\<lambda>r. length r = n) X" "length w = n"
  shows "\<exists>p. predict X w b = Inr (Arr1 p) \<and> shape (Arr1 p) = [length X]
           \<and> (\<forall>i<length X. p ! i = (if sigmoid (linear_score X w b n i) \<ge> 0.5 then 1 else 0))"
  using assms
  by (simp add: predict_value linear_score_def dot_as_sum list_all_length)

text \<open>
  Claim C1. For every feature matrix \<open>X\<close> of shape \<open>(m, n)\<close>, weight vector \<open>w\<close> of
  length \<open>n\<close> and scalar \<open>b\<close>, \<open>predict(X, w, b)\<close> returns a vector of shape \<open>(m, 1)\<close>
  with entry \<open>i\<close> equal to 1 exactly when \<open>sigmoid (X\<^sub>i \<cdot> w + b) \<ge> 0.5\<close> and 0
  otherwise. The entries are as claimed, the shape is not: for one example
  \<open>X = [[1, 2]]\<close>, \<open>w = [0, 0]\<close>, \<open>b = 0\<close> the result is the 1-D array \<open>[1]\<close> of shape
  \<open>(1,)\<close>, not an array of shape \<open>(1, 1)\<close> as the docstring of \<open>predict\<close> announces.
\<close>

theorem predict_one_example:
  "predict [[1, 2]] [0, 0] 0 = Inr (Arr1 [1]) \<and> shape (Arr1 [1 :: int]) = [1]
   \<and> shape (Arr1 [1 :: int]) \<noteq> [1, 1]"
  by (simp add: predict_value sigmoid_def)

section \<open>Properties over float64\<close>

subsection \<open>Rounding\<close>

lemma floor_le_rne: "\<lfloor>t\<rfloor> \<le> rne t"
  by (simp add: rne_def Let_def)

lemma rne_ge: "of_int k \<le> t \<Longrightarrow> k \<le> rne t"
proof -
  assume "of_int k \<le> t"
  then have "k \<le> \<lfloor>t\<rfloor>" by (simp add: le_floor_iff)
  with floor_le_rne [of t] show ?thesis by simp
qed

lemma rne_le: "t \<le> of_int k \<Longrightarrow> rne t \<le> k"
proof -
  assume a: "t \<le> of_int k"
  show ?thesis
  proof (cases "t = of_int k")
    case True
    then show ?thesis by (simp add: rne_def)
  next
    case False
    with a have "t < of_int k" by simp
    then have "\<lfloor>t\<rfloor> < k" by (simp add: floor_less_iff)
    then show ?thesis by (auto simp: rne_def Let_def)
  qed
qed

lemma rne_of_int: "rne (of_int k) = k"
  by (simp add: rne_def)

lemma rne_absorb: "0 \<le> d \<Longrightarrow> d < 1 / 2 \<Longrightarrow> rne (of_int k + d) = k"
proof -
  assume d: "0 \<le> d" "d < 1 / 2"
  then have "\<lfloor>of_int k + d\<rfloor> = k" by (simp add: floor_unique)
  with d show ?thesis by (simp add: rne_def)
qed

lemma pow2_split_succ: "(2::real) powr (of_int e + 1) = 2 ^ 53 * 2 powr (of_int e - 52)"
proof -
  have "real_of_int e + 1 = 53 + (of_int e - 52)" by simp
  then have "(2::real) powr (of_int e + 1) = 2 powr (53 + (of_int e - 52))" by (simp only:)
  also have "\<dots> = 2 powr 53 * 2 powr (of_int e - 52)" by (rule powr_add)
  finally show ?thesis by simp
qed

lemma pow2_split: "(2::real) powr of_int e = 2 ^ 52 * 2 powr (of_int e - 52)"
proof -
  have "real_of_int e = 52 + (of_int e - 52)" by simp
  then have "(2::real) powr of_int e = 2 powr (52 + (of_int e - 52))" by (simp only:)
  also have "\<dots> = 2 powr 52 * 2 powr (of_int e - 52)" by (rule powr_add)
  finally show ?thesis by simp
qed

lemma ulp_pos: "0 < ulp x"
  by (simp add: ulp_def)

lemma expo_ge: "- 1022 \<le> expo x"
  by (simp add: expo_def)

lemma expo_normal: "- 1022 < expo x \<Longrightarrow> 2 powr of_int (expo x) \<le> \<bar>x\<bar>"
proof -
  assume a: "- 1022 < expo x"
  then have x: "x \<noteq> 0" and e: "expo x = \<lfloor>log 2 \<bar>x\<bar>\<rfloor>"
    by (auto simp: expo_def split: if_splits)
  from x have "0 < \<bar>x\<bar>" by simp
  then have "2 powr of_int \<lfloor>log 2 \<bar>x\<bar>\<rfloor> \<le> \<bar>x\<bar>"
    using floor_log_eq_powr_iff [of "\<bar>x\<bar>" 2 "\<lfloor>log 2 \<bar>x\<bar>\<rfloor>"] by simp
  with e show ?thesis by simp
qed

lemma expo_upper: "\<bar>x\<bar> < 2 powr (of_int (expo x) + 1)"
proof (cases "x = 0")
  case True
  then show ?thesis by simp
next
  case False
  then have "0 < \<bar>x\<bar>" by simp
  then have "\<bar>x\<bar> < 2 powr (of_int \<lfloor>log 2 \<bar>x\<bar>\<rfloor> + 1)"
    using floor_log_eq_powr_iff [of "\<bar>x\<bar>" 2 "\<lfloor>log 2 \<bar>x\<bar>\<rfloor>"] by simp
  also have "\<dots> \<le> 2 powr (of_int (expo x) + 1)"
    using False by (simp add: expo_def)
  finally show ?thesis .
qed

lemma expo_eqI:
  "- 1022 \<le> e \<Longrightarrow> 2 powr of_int e \<le> \<bar>x\<bar> \<Longrightarrow> \<bar>x\<bar> < 2 powr (of_int e + 1) \<Longrightarrow> expo x = e"
proof -
  assume a: "- 1022 \<le> e" "2 powr of_int e \<le> \<bar>x\<bar>" "\<bar>x\<bar> < 2 powr (of_int e + 1)"
  have "0 < 2 powr (of_int e :: real)" by simp
  with a(2) have x: "0 < \<bar>x\<bar>" by linarith
  then have "\<lfloor>log 2 \<bar>x\<bar>\<rfloor> = e"
    using floor_log_eq_powr_iff [of "\<bar>x\<bar>" 2 e] a by simp
  with x a(1) show ?thesis by (auto simp: expo_def)
qed


text \<open>
  A float is an integer multiple of the spacing at any exponent that is not above
  its own.
\<close>

lemma float_multiple:
  assumes "(c::real) = of_int n * 2 powr (of_int ec - 52)" "e \<le> ec"
  shows "\<exists>k::int. c = of_int k * 2 powr (of_int e - 52)"
proof -
  from assms(2) obtain j where j: "ec = e + int j"
    by (metis zle_iff_zadd)
  have "2 powr (of_int ec - 52) = 2 powr (of_int e - 52) * (2::real) ^ j"
    by (simp add: j powr_add [symmetric] powr_realpow [symmetric] algebra_simps)
  then have "c = of_int (n * 2 ^ j) * 2 powr (of_int e - 52)"
    using assms(1) by simp
  then show ?thesis by blast
qed


text \<open>Rounding never crosses a float: it is monotone, and it fixes the floats.\<close>

lemma nearest_le:
  assumes "is_float64 c" "x \<le> c"
  shows "nearest x \<le> c"
proof -
  from assms(1) obtain n ec where
    n: "\<bar>n\<bar> < 2 ^ 53" and ec: "- 1022 \<le> ec" and c: "c = of_int n * 2 powr (of_int ec - 52)"
    by (auto simp: is_float64_def)
  let ?e = "expo x"
  let ?u = "ulp x"
  have u: "0 < ?u" by (rule ulp_pos)
  show ?thesis
  proof (cases "?e \<le> ec")
    case True
    from float_multiple [OF c True] obtain k :: int where k: "c = of_int k * ?u"
      by (auto simp: ulp_def)
    with assms(2) u have "x / ?u \<le> of_int k"
      by (simp add: field_simps)
    then have "rne (x / ?u) \<le> k" by (rule rne_le)
    then have "of_int (rne (x / ?u)) * ?u \<le> of_int k * ?u"
      using u by simp
    with k show ?thesis by (simp add: nearest_def)
  next
    case False
    then have lt: "ec < ?e" by simp
    with ec have "- 1022 < ?e" by simp
    then have xe: "2 powr of_int ?e \<le> \<bar>x\<bar>" by (rule expo_normal)
    have "\<bar>c\<bar> = of_int \<bar>n\<bar> * 2 powr (of_int ec - 52)"
      by (simp add: c abs_mult)
    also have "\<dots> < 2 ^ 53 * 2 powr (of_int ec - 52)"
      using n by (simp)
    also have "\<dots> = 2 powr (of_int ec + 1)"
      by (simp only: pow2_split_succ)
    also have "\<dots> \<le> 2 powr of_int ?e"
      using lt by simp
    finally have ce: "\<bar>c\<bar> < 2 powr of_int ?e" .
    with xe assms(2) have neg: "x \<le> - (2 powr of_int ?e)" by linarith
    have "2 powr of_int ?e = 2 ^ 52 * ?u"
      unfolding ulp_def by (rule pow2_split)
    with neg u have "x / ?u \<le> of_int (- (2 ^ 52))"
      by (simp add: field_simps)
    then have "rne (x / ?u) \<le> - (2 ^ 52)" by (rule rne_le)
    then have "of_int (rne (x / ?u)) * ?u \<le> of_int (- (2 ^ 52)) * ?u"
      using u by (simp del: of_int_minus)
    also have "\<dots> = - (2 powr of_int ?e)"
      unfolding ulp_def by (simp only: pow2_split [of ?e]) simp
    finally show ?thesis using ce by (simp add: nearest_def)
  qed
qed

lemma nearest_ge:
  assumes "is_float64 c" "c \<le> x"
  shows "c \<le> nearest x"
proof -
  from assms(1) obtain n ec where
    n: "\<bar>n\<bar> < 2 ^ 53" and ec: "- 1022 \<le> ec" and c: "c = of_int n * 2 powr (of_int ec - 52)"
    by (auto simp: is_float64_def)
  let ?e = "expo x"
  let ?u = "ulp x"
  have u: "0 < ?u" by (rule ulp_pos)
  show ?thesis
  proof (cases "?e \<le> ec")
    case True
    from float_multiple [OF c True] obtain k :: int where k: "c = of_int k * ?u"
      by (auto simp: ulp_def)
    with assms(2) u have "of_int k \<le> x / ?u"
      by (simp add: field_simps)
    then have "k \<le> rne (x / ?u)" by (rule rne_ge)
    then have "of_int k * ?u \<le> of_int (rne (x / ?u)) * ?u"
      using u by simp
    with k show ?thesis by (simp add: nearest_def)
  next
    case False
    then have lt: "ec < ?e" by simp
    with ec have "- 1022 < ?e" by simp
    then have xe: "2 powr of_int ?e \<le> \<bar>x\<bar>" by (rule expo_normal)
    have "\<bar>c\<bar> = of_int \<bar>n\<bar> * 2 powr (of_int ec - 52)"
      by (simp add: c abs_mult)
    also have "\<dots> < 2 ^ 53 * 2 powr (of_int ec - 52)"
      using n by (simp)
    also have "\<dots> = 2 powr (of_int ec + 1)"
      by (simp only: pow2_split_succ)
    also have "\<dots> \<le> 2 powr of_int ?e"
      using lt by simp
    finally have ce: "\<bar>c\<bar> < 2 powr of_int ?e" .
    with xe assms(2) have pos: "2 powr of_int ?e \<le> x" by linarith
    have "2 powr of_int ?e = 2 ^ 52 * ?u"
      unfolding ulp_def by (rule pow2_split)
    with pos u have "of_int (2 ^ 52) \<le> x / ?u"
      by (simp add: field_simps)
    then have "2 ^ 52 \<le> rne (x / ?u)" by (rule rne_ge)
    then have "of_int (2 ^ 52) * ?u \<le> of_int (rne (x / ?u)) * ?u"
      using u by (simp only: mult_le_cancel_right of_int_le_iff) simp
    moreover have "of_int (2 ^ 52) * ?u = 2 powr of_int ?e"
      unfolding ulp_def by (simp only: pow2_split [of ?e]) simp
    ultimately show ?thesis using ce by (simp add: nearest_def)
  qed
qed

lemma nearest_float: "is_float64 c \<Longrightarrow> nearest c = c"
  using nearest_le [of c c] nearest_ge [of c c] by simp

lemma overflow64_powr: "overflow64 = 2 powr 1024"
  by (simp add: overflow64_def)

lemma float_bound: "is_float64 c \<Longrightarrow> \<bar>c\<bar> < overflow64"
proof -
  assume "is_float64 c"
  then obtain n e where
    n: "\<bar>n\<bar> < 2 ^ 53" and e: "e \<le> 1023" and c: "c = of_int n * 2 powr (of_int e - 52)"
    by (auto simp: is_float64_def)
  have "\<bar>c\<bar> = of_int \<bar>n\<bar> * 2 powr (of_int e - 52)"
    by (simp add: c abs_mult)
  also have "\<dots> < 2 ^ 53 * 2 powr (of_int e - 52)"
    using n by simp
  also have "\<dots> = 2 powr (of_int e + 1)"
    by (simp only: pow2_split_succ)
  also have "\<dots> \<le> 2 powr 1024"
    by (rule powr_mono) (use e in simp_all)
  finally show ?thesis
    unfolding overflow64_powr .
qed

lemma round64_Fin: "\<bar>nearest x\<bar> < overflow64 \<Longrightarrow> round64 x = Fin (nearest x)"
  by (auto simp: round64_def Let_def)

lemma round64_float: "is_float64 c \<Longrightarrow> round64 c = Fin c"
  using float_bound [of c] round64_Fin [of c] by (simp add: nearest_float)

lemma round64_between:
  assumes "is_float64 a" "is_float64 c" "a \<le> x" "x \<le> c"
  shows "\<exists>v. round64 x = Fin v \<and> a \<le> v \<and> v \<le> c"
proof -
  have b: "a \<le> nearest x" "nearest x \<le> c"
    using assms by (simp_all add: nearest_ge nearest_le)
  moreover have "\<bar>a\<bar> < overflow64" "\<bar>c\<bar> < overflow64"
    using assms by (simp_all add: float_bound)
  ultimately have "\<bar>nearest x\<bar> < overflow64"
    by linarith
  then have "round64 x = Fin (nearest x)"
    by (rule round64_Fin)
  with b show ?thesis
    by simp
qed


text \<open>Floats used below.\<close>

lemma is_float64_scaled:
  assumes "\<bar>n\<bar> < 2 ^ 53" "- 1074 \<le> k" "k \<le> 971"
  shows "is_float64 (of_int n * 2 powr of_int k)"
proof -
  have "real_of_int k = of_int (k + 52) - 52" by simp
  then have "real_of_int n * 2 powr of_int k = of_int n * 2 powr (of_int (k + 52) - 52)"
    by (simp only:)
  moreover have "- 1022 \<le> k + 52" "k + 52 \<le> 1023"
    using assms by simp_all
  ultimately show ?thesis
    using assms(1) unfolding is_float64_def by blast
qed

lemma is_float64_int: "\<bar>n\<bar> < 2 ^ 53 \<Longrightarrow> is_float64 (of_int n)"
  using is_float64_scaled [of n 0] by simp

lemma is_float64_int_div_pow2:
  assumes "\<bar>n\<bar> < 2 ^ 53" "k \<le> 1074"
  shows "is_float64 (of_int n / 2 ^ k)"
proof -
  have "(2::real) powr of_int (- int k) = 1 / 2 ^ k"
    by (simp add: powr_minus powr_realpow divide_inverse)
  then have "real_of_int n / 2 ^ k = of_int n * 2 powr of_int (- int k)"
    by simp
  moreover have "is_float64 (of_int n * 2 powr of_int (- int k))"
    by (rule is_float64_scaled) (use assms in simp_all)
  ultimately show ?thesis by simp
qed

lemma is_float64_int_mult_pow2:
  assumes "\<bar>n\<bar> < 2 ^ 53" "k \<le> 971"
  shows "is_float64 (of_int n * 2 ^ k)"
proof -
  have "(2::real) powr of_int (int k) = 2 ^ k"
    by (simp add: powr_realpow)
  then have "real_of_int n * 2 ^ k = of_int n * 2 powr of_int (int k)"
    by simp
  moreover have "is_float64 (of_int n * 2 powr of_int (int k))"
    by (rule is_float64_scaled) (use assms in simp_all)
  ultimately show ?thesis by (simp only:)
qed

lemma is_float64_examples:
  "is_float64 0" "is_float64 1" "is_float64 2" "is_float64 (1 / 2)" "is_float64 (- 1)"
  "is_float64 5" "is_float64 10" "is_float64 40" "is_float64 (- 40)"
  "is_float64 (- (1 / 2))" "is_float64 (- (3 / 4))"
  using is_float64_int [of 0] is_float64_int [of 1] is_float64_int [of 2]
    is_float64_int_div_pow2 [of 1 1] is_float64_int [of "- 1"] is_float64_int [of 5]
    is_float64_int [of 10] is_float64_int [of 40] is_float64_int [of "- 40"]
    is_float64_int_div_pow2 [of "- 1" 1] is_float64_int_div_pow2 [of "- 3" 2]
  by simp_all

lemma is_float64_minus: "is_float64 c \<Longrightarrow> is_float64 (- c)"
proof -
  assume "is_float64 c"
  then obtain n e where
    "\<bar>n\<bar> < 2 ^ 53" "- 1022 \<le> e" "e \<le> 1023" "c = of_int n * 2 powr (of_int e - 52)"
    by (auto simp: is_float64_def)
  then have "\<bar>- n\<bar> < 2 ^ 53" "- 1022 \<le> e" "e \<le> 1023"
    "- c = of_int (- n) * 2 powr (of_int e - 52)"
    by simp_all
  then show ?thesis
    unfolding is_float64_def by blast
qed

lemma round64_zero: "round64 0 = Fin 0"
  by (simp add: round64_float is_float64_examples)

lemma round64_one: "round64 1 = Fin 1"
  by (simp add: round64_float is_float64_examples)


text \<open>The result of rounding is a float, or an infinity.\<close>

lemma nearest_is_float:
  assumes "\<bar>nearest x\<bar> < overflow64"
  shows "is_float64 (nearest x)"
proof -
  let ?e = "expo x"
  let ?u = "ulp x"
  let ?n = "rne (x / ?u)"
  have u: "0 < ?u" by (rule ulp_pos)
  have v: "nearest x = of_int ?n * ?u" by (simp add: nearest_def)
  have up: "\<bar>x\<bar> < 2 ^ 53 * ?u"
    using expo_upper [of x] unfolding ulp_def by (simp only: pow2_split_succ)
  then have "x / ?u \<le> of_int (2 ^ 53)" "of_int (- (2 ^ 53)) \<le> x / ?u"
    using u by (simp_all add: field_simps abs_less_iff)
  then have n: "?n \<le> 2 ^ 53" "- (2 ^ 53) \<le> ?n"
    by (simp_all only: rne_le rne_ge)
  have e_low: "- 1022 \<le> ?e" by (rule expo_ge)
  have big: "2 ^ 52 \<le> \<bar>?n\<bar>" if "- 1022 < ?e"
  proof -
    from that have "2 powr of_int ?e \<le> \<bar>x\<bar>" by (rule expo_normal)
    then have xe: "2 ^ 52 * ?u \<le> \<bar>x\<bar>"
      unfolding ulp_def by (simp only: pow2_split [of ?e])
    show ?thesis
    proof (cases "0 \<le> x")
      case True
      with xe u have "of_int (2 ^ 52) \<le> x / ?u" by (simp add: field_simps)
      then have "2 ^ 52 \<le> ?n" by (rule rne_ge)
      then show ?thesis by simp
    next
      case False
      with xe u have "x / ?u \<le> of_int (- (2 ^ 52))" by (simp add: field_simps)
      then have "?n \<le> - (2 ^ 52)" by (rule rne_le)
      then show ?thesis by simp
    qed
  qed
  have e_high: "?e \<le> 1023"
  proof (rule ccontr)
    assume "\<not> ?e \<le> 1023"
    then have e: "1024 \<le> ?e" by simp
    then have "2 ^ 52 \<le> \<bar>?n\<bar>" using big by simp
    then have "(2 ^ 52 :: real) \<le> of_int \<bar>?n\<bar>"
      by (metis of_int_le_iff of_int_numeral of_int_power)
    then have "2 ^ 52 * ?u \<le> of_int \<bar>?n\<bar> * ?u"
      using u by simp
    moreover have "(2::real) powr 1024 \<le> 2 powr of_int ?e"
      by (rule powr_mono) (use e in simp_all)
    moreover have "(2::real) powr of_int ?e = 2 ^ 52 * ?u"
      unfolding ulp_def by (rule pow2_split)
    moreover have "\<bar>nearest x\<bar> = of_int \<bar>?n\<bar> * ?u"
      using u by (simp add: v abs_mult)
    ultimately have "overflow64 \<le> \<bar>nearest x\<bar>"
      unfolding overflow64_powr by linarith
    with assms show False by simp
  qed
  show ?thesis
  proof (cases "\<bar>?n\<bar> < 2 ^ 53")
    case True
    with e_low e_high v show ?thesis
      unfolding is_float64_def ulp_def by blast
  next
    case False
    with n have nn: "?n = 2 ^ 53 \<or> ?n = - (2 ^ 53)" by linarith
    have "\<bar>nearest x\<bar> = of_int \<bar>?n\<bar> * ?u"
      using u by (simp add: v abs_mult)
    also have "\<dots> = 2 ^ 53 * ?u"
      using nn by auto
    also have "\<dots> = 2 powr (of_int ?e + 1)"
      unfolding ulp_def by (simp only: pow2_split_succ)
    finally have av: "\<bar>nearest x\<bar> = 2 powr (of_int ?e + 1)" .
    from assms have "\<bar>nearest x\<bar> < 2 powr 1024"
      unfolding overflow64_powr .
    then have "(2::real) powr (of_int ?e + 1) < 2 powr 1024"
      by (simp only: av)
    then have "real_of_int ?e + 1 < 1024"
      by (rule powr_less_cancel) simp
    then have e1: "?e + 1 \<le> 1023" by linarith
    have "2 ^ 53 * ?u = 2 ^ 52 * 2 powr (of_int (?e + 1) - 52)"
    proof -
      have "2 ^ 53 * ?u = 2 powr (of_int ?e + 1)"
        unfolding ulp_def by (simp only: pow2_split_succ)
      also have "\<dots> = 2 powr of_int (?e + 1)" by simp
      also have "\<dots> = 2 ^ 52 * 2 powr (of_int (?e + 1) - 52)" by (rule pow2_split)
      finally show ?thesis .
    qed
    then have "nearest x = of_int (?n div 2) * 2 powr (of_int (?e + 1) - 52)"
      using nn v by auto
    moreover have "\<bar>?n div 2\<bar> < 2 ^ 53"
      using nn by auto
    moreover have "- 1022 \<le> ?e + 1"
      using e_low by simp
    ultimately show ?thesis
      using e1 unfolding is_float64_def by blast
  qed
qed

lemma wf64_round64: "wf64 (round64 x)"
  using nearest_is_float [of x] by (auto simp: round64_def Let_def)

lemma round64_overflow:
  assumes "overflow64 \<le> x"
  shows "round64 x = PInf"
proof -
  let ?e = "expo x"
  let ?u = "ulp x"
  have u: "0 < ?u" by (rule ulp_pos)
  have x: "(2::real) powr 1024 \<le> x"
    using assms unfolding overflow64_powr .
  moreover have "0 < (2::real) powr 1024"
    by simp
  ultimately have xpos: "0 < x"
    by linarith
  from x xpos have "(2::real) powr 1024 < 2 powr (of_int ?e + 1)"
    using expo_upper [of x] by linarith
  then have "1024 < real_of_int ?e + 1"
    by (rule powr_less_cancel) simp
  then have e: "1024 \<le> ?e" by linarith
  have "2 powr of_int ?e \<le> \<bar>x\<bar>"
    by (rule expo_normal) (use e in linarith)
  then have "2 ^ 52 * ?u \<le> x"
    using xpos unfolding ulp_def by (simp only: pow2_split [of ?e])
  then have "of_int (2 ^ 52) \<le> x / ?u"
    using u by (simp add: field_simps)
  then have "2 ^ 52 \<le> rne (x / ?u)" by (rule rne_ge)
  then have "of_int (2 ^ 52) * ?u \<le> of_int (rne (x / ?u)) * ?u"
    using u by (simp only: mult_le_cancel_right of_int_le_iff) simp
  moreover have "of_int (2 ^ 52) * ?u = 2 powr of_int ?e"
    unfolding ulp_def by (simp only: pow2_split [of ?e]) simp
  moreover have "(2::real) powr 1024 \<le> 2 powr of_int ?e"
    by (rule powr_mono) (use e in simp_all)
  ultimately have "overflow64 \<le> nearest x"
    unfolding overflow64_powr nearest_def by linarith
  then show ?thesis
    by (simp add: round64_def)
qed

lemma round64_ge:
  assumes "is_float64 c" "c \<le> x"
  shows "round64 x = PInf \<or> (\<exists>v. round64 x = Fin v \<and> c \<le> v \<and> is_float64 v)"
proof -
  have "c \<le> nearest x" using assms by (rule nearest_ge)
  moreover have "\<bar>c\<bar> < overflow64" using assms(1) by (rule float_bound)
  ultimately have "\<not> nearest x \<le> - overflow64" by linarith
  then show ?thesis
    using \<open>c \<le> nearest x\<close> nearest_is_float [of x]
    by (auto simp: round64_def Let_def)
qed

lemma round64_nonneg: "0 \<le> x \<Longrightarrow> round64 x = PInf \<or> (\<exists>v. round64 x = Fin v \<and> 0 \<le> v \<and> is_float64 v)"
  using round64_ge [of 0 x] by (simp add: is_float64_examples)

lemma round64_range:
  assumes "is_float64 a" "is_float64 c" "a \<le> x" "x \<le> c"
  shows "round64 x = Fin (nearest x) \<and> a \<le> nearest x \<and> nearest x \<le> c \<and> is_float64 (nearest x)"
proof -
  have b: "a \<le> nearest x" "nearest x \<le> c"
    using assms by (simp_all add: nearest_ge nearest_le)
  moreover have "\<bar>a\<bar> < overflow64" "\<bar>c\<bar> < overflow64"
    using assms by (simp_all add: float_bound)
  ultimately have l: "\<bar>nearest x\<bar> < overflow64"
    by linarith
  then have "round64 x = Fin (nearest x)"
    by (rule round64_Fin)
  with b l show ?thesis
    by (simp add: nearest_is_float)
qed


text \<open>
  An addend below half the spacing is absorbed: next to 1, and next to a float in
  \<open>[1/2, 1)\<close>.
\<close>

lemma round64_one_plus:
  assumes "0 \<le> r" "r < 1 / 2 ^ 53"
  shows "round64 (1 + r) = Fin 1"
proof -
  have ex: "expo (1 + r) = 0"
    by (rule expo_eqI) (use assms in simp_all)
  have p: "(2::real) powr (of_int 0 - 52) = 1 / 2 ^ 52"
    by (simp add: powr_neg_numeral)
  have u: "ulp (1 + r) = 1 / 2 ^ 52"
    unfolding ulp_def ex by (rule p)
  have "(1 + r) * 2 ^ 52 = of_int (2 ^ 52) + r * 2 ^ 52"
    by (simp add: distrib_right)
  moreover have "0 \<le> r * 2 ^ 52" "r * 2 ^ 52 < 1 / 2"
    using assms by (simp_all add: field_simps)
  ultimately have "rne ((1 + r) * 2 ^ 52) = 2 ^ 52"
    by (simp only: rne_absorb)
  then have "nearest (1 + r) = 1"
    by (simp add: nearest_def u)
  then show ?thesis
    using float_bound [of 1] round64_Fin [of "1 + r"] by (simp add: is_float64_examples)
qed



subsection \<open>sigmoid over float64\<close>

lemma sigmoid64_zero: "sigmoid64 (Fin 0) = Fin (1 / 2)"
  by (simp add: sigmoid64_def round64_float is_float64_examples)

lemma sigmoid64_unit_interval:
  assumes "z \<noteq> NaN"
  shows "fle (Fin 0) (sigmoid64 z) \<and> fle (sigmoid64 z) (Fin 1)"
proof (cases z)
  case (Fin x)
  from round64_nonneg [of "exp (- x)"]
  consider "round64 (exp (- x)) = PInf"
    | r where "round64 (exp (- x)) = Fin r" "0 \<le> r"
    by auto
  then show ?thesis
  proof cases
    case 1
    with Fin show ?thesis by (simp add: sigmoid64_def)
  next
    case 2
    from round64_ge [of 1 "1 + r"] 2(2)
    consider "round64 (1 + r) = PInf" | d where "round64 (1 + r) = Fin d" "1 \<le> d"
      by (auto simp: is_float64_examples)
    then show ?thesis
    proof cases
      case 1
      with Fin 2 show ?thesis by (simp add: sigmoid64_def)
    next
      case 2
      note d = this
      then have "0 \<le> 1 / d" "1 / d \<le> 1" by simp_all
      with round64_range [of 0 1 "1 / d"]
      have "round64 (1 / d) = Fin (nearest (1 / d))" "0 \<le> nearest (1 / d)" "nearest (1 / d) \<le> 1"
        by (simp_all add: is_float64_examples)
      with Fin \<open>round64 (exp (- x)) = Fin r\<close> d show ?thesis
        by (simp add: sigmoid64_def)
    qed
  qed
next
  case PInf
  then show ?thesis by (simp add: sigmoid64_def round64_one)
next
  case NInf
  then show ?thesis by (simp add: sigmoid64_def)
next
  case NaN
  with assms show ?thesis by simp
qed


text \<open>
  Claim C8, as amended. For every float64 \<open>z\<close> other than \<open>nan\<close> the computed
  \<open>sigmoid(z)\<close> lies in the closed interval \<open>[0, 1]\<close>, and \<open>sigmoid(0.0) = 0.5\<close>; the
  exact real value \<open>1 / (1 + exp (- x))\<close> lies in the open interval \<open>(0, 1)\<close>, is \<open>0.5\<close>
  at 0 and satisfies \<open>sigmoid (- x) = 1 - sigmoid x\<close>.
\<close>

theorem sigmoid64_closed_interval:
  "(z \<noteq> NaN \<longrightarrow> fle (Fin 0) (sigmoid64 z) \<and> fle (sigmoid64 z) (Fin 1))
   \<and> sigmoid64 (Fin 0) = Fin (1 / 2)
   \<and> 0 < sigmoid x \<and> sigmoid x < 1 \<and> sigmoid 0 = 1 / 2 \<and> sigmoid (- x) = 1 - sigmoid x"
  using sigmoid64_unit_interval [of z] sigmoid64_zero sigmoid_range_half_symmetric [of x]
  by blast

theorem sigmoid64_closed_interval_witness:
  "fle (Fin 0) (sigmoid64 (Fin 40)) \<and> fle (sigmoid64 (Fin 40)) (Fin 1)
   \<and> sigmoid64 (Fin 0) = Fin (1 / 2)
   \<and> 0 < sigmoid 40 \<and> sigmoid 40 < 1 \<and> sigmoid 0 = 1 / 2 \<and> sigmoid (- 40) = 1 - sigmoid 40"
  using sigmoid64_closed_interval [of "Fin 40" 40]
  by simp


text \<open>
  The computed values reach the end of the interval and break the symmetry:
  \<open>exp(-40.0)\<close> is below half the spacing of the floats at 1, so
  \<open>sigmoid(40.0) = 1.0\<close> and \<open>1 - sigmoid(40.0) = 0.0\<close>, while \<open>sigmoid(-40.0)\<close> is
  positive.
\<close>

lemma exp_half_bounds: "13 / 8 \<le> exp (1 / 2 :: real)" "exp (1 / 2 :: real) \<le> 7 / 4"
proof -
  have "1 + (1 / 2) + (1 / 2)\<^sup>2 / 2 \<le> exp (1 / 2 :: real)"
    by (rule exp_lower_Taylor_quadratic) simp
  then show "13 / 8 \<le> exp (1 / 2 :: real)"
    by (simp add: power2_eq_square)
  have "exp (1 / 2 :: real) \<le> 1 + (1 / 2) + (1 / 2)\<^sup>2"
    by (rule exp_bound) simp_all
  then show "exp (1 / 2 :: real) \<le> 7 / 4"
    by (simp add: power2_eq_square)
qed

lemma exp_40_bounds: "2 ^ 54 \<le> exp (40 :: real)" "exp (40 :: real) \<le> 2 ^ 65"
proof -
  have e: "exp (40 :: real) = exp (1 / 2) ^ 80"
    using exp_of_nat_mult [of 80 "1 / 2 :: real"] by simp
  have "(2 :: real) ^ 54 \<le> (13 / 8) ^ 80"
    by (simp add: power_divide)
  also have "\<dots> \<le> exp (1 / 2 :: real) ^ 80"
    by (rule power_mono) (use exp_half_bounds in simp_all)
  finally show "2 ^ 54 \<le> exp (40 :: real)"
    by (simp only: e)
  have "exp (1 / 2 :: real) ^ 80 \<le> (7 / 4) ^ 80"
    by (rule power_mono) (use exp_half_bounds in simp_all)
  also have "\<dots> \<le> (2 :: real) ^ 65"
    by (simp add: power_divide)
  finally show "exp (40 :: real) \<le> 2 ^ 65"
    by (simp only: e)
qed

lemma exp_minus_40_bound: "exp (- 40 :: real) \<le> 1 / 2 ^ 54"
proof -
  have "exp (- 40 :: real) = 1 / exp 40"
    by (simp add: exp_minus divide_inverse)
  also have "\<dots> \<le> 1 / 2 ^ 54"
    by (rule divide_left_mono) (use exp_40_bounds in simp_all)
  finally show ?thesis .
qed

lemma sigmoid64_40: "sigmoid64 (Fin 40) = Fin 1"
proof -
  have f: "is_float64 (1 / 2 ^ 54)"
    using is_float64_int_div_pow2 [of 1 54] by simp
  from round64_range [OF is_float64_examples(1) f, of "exp (- 40)"] exp_minus_40_bound
  obtain r where r: "round64 (exp (- 40)) = Fin r" "0 \<le> r" "r \<le> 1 / 2 ^ 54"
    by auto
  then have "r < 1 / 2 ^ 53" by simp
  with r(2) have "round64 (1 + r) = Fin 1" by (rule round64_one_plus)
  with r(1) show ?thesis
    by (simp add: sigmoid64_def round64_one)
qed

lemma sigmoid64_minus_40: "\<exists>q. sigmoid64 (Fin (- 40)) = Fin q \<and> 0 < q"
proof -
  have f65: "is_float64 (2 ^ 65)" and f66: "is_float64 (2 ^ 66)" and g66: "is_float64 (1 / 2 ^ 66)"
    using is_float64_int_mult_pow2 [of 1 65] is_float64_int_mult_pow2 [of 1 66]
      is_float64_int_div_pow2 [of 1 66] by simp_all
  have "0 \<le> exp (40 :: real)" by simp
  with round64_range [OF is_float64_examples(1) f65, of "exp 40"] exp_40_bounds(2)
  obtain E where E: "round64 (exp 40) = Fin E" "0 \<le> E" "E \<le> 2 ^ 65"
    by auto
  then have "1 \<le> 1 + E" "1 + E \<le> 2 ^ 66" by simp_all
  with round64_range [OF is_float64_examples(2) f66, of "1 + E"]
  obtain D where D: "round64 (1 + E) = Fin D" "1 \<le> D" "D \<le> 2 ^ 66"
    by auto
  then have "1 / 2 ^ 66 \<le> 1 / D" "1 / D \<le> 1"
    by (simp_all add: field_simps)
  with round64_range [OF g66 is_float64_examples(2), of "1 / D"]
  obtain q where q: "round64 (1 / D) = Fin q" "1 / 2 ^ 66 \<le> q"
    by auto
  moreover have "0 < 1 / (2::real) ^ 66"
    by simp
  ultimately have "0 < q"
    by linarith
  with E(1) D(1,2) q(1) show ?thesis
    by (simp add: sigmoid64_def)
qed

theorem sigmoid64_not_open_not_symmetric:
  "sigmoid64 (Fin 40) = Fin 1
   \<and> sigmoid64 (Fin (- 40)) \<noteq> fsub (Fin 1) (sigmoid64 (Fin 40))"
proof -
  from sigmoid64_minus_40 obtain q where q: "sigmoid64 (Fin (- 40)) = Fin q" "0 < q"
    by blast
  have "fsub (Fin 1) (sigmoid64 (Fin 40)) = Fin 0"
    by (simp add: sigmoid64_40 fsub_def round64_zero)
  with q sigmoid64_40 show ?thesis
    by simp
qed


subsection \<open>The cost functions over float64\<close>

lemma np_dot64_fits:
  "list_all (\<lambda>r. length r = length w) X \<Longrightarrow>
   np_dot64 X w = Inr (map (\<lambda>r. fsum (map2 fmul r w)) X)"
  by (simp add: np_dot64_def)

lemma compute_cost64_value:
  assumes "dataset X y m n" "0 < m" "length w = n"
  shows "compute_cost64 X y w b lambda = Inr (cost64 X y w b)"
  using assms
  by (simp add: compute_cost64_def dataset_def np_dot64_fits broadcast_same_length and_then_Inr
      cost64_def Let_def)

lemma compute_cost_reg64_value:
  assumes "dataset X y m n" "0 < m" "length w = n"
  shows "compute_cost_reg64 X y w b (Some l) =
           Inr (fadd (cost64 X y w b)
                  (fmul (fdiv l (round64 (real (2 * m)))) (fsum (map (\<lambda>x. fmul x x) w))))"
  using assms
  by (simp add: compute_cost_reg64_def dataset_def np_dot64_fits broadcast_same_length and_then_Inr
      cost64_def Let_def)

lemma wf64_fmul: "wf64 (fmul a b)"
  by (cases a; cases b) (simp_all add: wf64_round64)

lemma wf64_cost64: "wf64 (cost64 X y w b)"
  by (simp add: cost64_def Let_def wf64_fmul)

lemma fadd_zero: "wf64 a \<Longrightarrow> fadd a (Fin 0) = a"
  by (cases a) (simp_all add: round64_float)

lemma round64_two_m:
  assumes "0 < m"
  shows "round64 (real (2 * m)) = PInf \<or> (\<exists>d. round64 (real (2 * m)) = Fin d \<and> 2 \<le> d)"
proof -
  from assms have "2 \<le> real (2 * m)" by simp
  with round64_ge [of 2 "real (2 * m)"] show ?thesis
    by (auto simp: is_float64_examples)
qed

lemma zero_over_two_m: "0 < m \<Longrightarrow> fdiv (Fin 0) (round64 (real (2 * m))) = Fin 0"
  using round64_two_m [of m] by (auto simp: round64_zero)











text \<open>A dataset and weights for the examples.\<close>

lemma dataset_example:
  "dataset [[Fin 1, Fin 2], [Fin 3, Fin 4]] [Fin 0, Fin 1] 2 2"
  by (simp add: dataset_def)

lemma sum_squares_example:
  "fsum (map (\<lambda>x. fmul x x) [Fin 1, Fin (- 1)]) = Fin 2"
  by (simp add: round64_float is_float64_examples)


text \<open>
  Claim C4, as amended. For every dataset \<open>(X, y)\<close> with \<open>m \<ge> 1\<close> examples, bias \<open>b\<close> and
  weight vector \<open>w\<close> whose float64 sum of squares \<open>np.sum(w**2)\<close> is finite,
  \<open>compute_cost_reg(X, y, w, b, 0)\<close> and \<open>compute_cost(X, y, w, b)\<close> return the same
  float64 (\<open>nan\<close> when the unregularized cost is \<open>nan\<close>).
\<close>

theorem compute_cost_reg64_zero_lambda:
  assumes "dataset X y m n" "1 \<le> m" "length w = n"
      and "fsum (map (\<lambda>x. fmul x x) w) = Fin S"
  shows "\<exists>c. compute_cost64 X y w b lambda = Inr c
           \<and> compute_cost_reg64 X y w b (Some (Fin 0)) = Inr c"
proof -
  from assms(2) have m: "0 < m" by simp
  have "fmul (fdiv (Fin 0) (round64 (real (2 * m)))) (fsum (map (\<lambda>x. fmul x x) w)) = Fin 0"
    by (simp only: zero_over_two_m [OF m] assms(4)) (simp add: round64_zero)
  then have "compute_cost_reg64 X y w b (Some (Fin 0)) = Inr (cost64 X y w b)"
    by (simp add: compute_cost_reg64_value [OF assms(1) m assms(3)] fadd_zero wf64_cost64)
  with compute_cost64_value [OF assms(1) m assms(3)] show ?thesis
    by simp
qed

theorem compute_cost_reg64_zero_lambda_witness:
  "\<exists>c. compute_cost64 [[Fin 1, Fin 2], [Fin 3, Fin 4]] [Fin 0, Fin 1] [Fin 1, Fin (- 1)] (Fin 2) None
          = Inr c
     \<and> compute_cost_reg64 [[Fin 1, Fin 2], [Fin 3, Fin 4]] [Fin 0, Fin 1] [Fin 1, Fin (- 1)] (Fin 2)
          (Some (Fin 0)) = Inr c"
  using compute_cost_reg64_zero_lambda [OF dataset_example _ _ sum_squares_example, of "Fin 2" None]
  by simp





subsection \<open>One example with \<open>X = [[0.]]\<close>, \<open>y = [1.]\<close>, \<open>b = 0.\<close>\<close>

text \<open>
  Whatever the weight, the score is 0, the probability \<open>0.5\<close> and the cost
  \<open>- log(0.5)\<close>, a float between \<open>0.5\<close> and \<open>0.75\<close>.
\<close>

lemma ln_half_bounds: "- (3 / 4) \<le> ln (1 / 2 :: real)" "ln (1 / 2 :: real) \<le> - (1 / 2)"
proof -
  have "exp (1 / 2 :: real) \<le> 2"
    using exp_half_bounds(2) by simp
  then have low: "1 / 2 \<le> ln (2 :: real)"
    using ln_ge_iff [of 2 "1 / 2"] by (simp only:)
  have "1 + (3 / 4) + (3 / 4)\<^sup>2 / 2 \<le> exp (3 / 4 :: real)"
    by (rule exp_lower_Taylor_quadratic) simp
  then have e: "2 \<le> exp (3 / 4 :: real)"
    by (simp add: power2_eq_square)
  have "ln (2 :: real) \<le> ln (exp (3 / 4))"
    by (rule ln_mono) (use e in simp_all)
  then have high: "ln (2 :: real) \<le> 3 / 4"
    by simp
  have "ln (1 / 2 :: real) = - ln 2"
    by (simp add: ln_div)
  with low high show "- (3 / 4) \<le> ln (1 / 2 :: real)" "ln (1 / 2 :: real) \<le> - (1 / 2)"
    by simp_all
qed

lemma flog_half:
  "\<exists>L. flog (Fin (1 / 2)) = Fin L \<and> is_float64 L \<and> - (3 / 4) \<le> L \<and> L \<le> - (1 / 2)"
  using round64_range [OF is_float64_examples(11) is_float64_examples(10) ln_half_bounds]
  by simp

lemma cost64_one_example:
  "cost64 [[Fin 0]] [Fin 1] [Fin v] (Fin 0) = fneg (flog (Fin (1 / 2)))"
proof -
  from flog_half obtain L where L: "flog (Fin (1 / 2)) = Fin L" "is_float64 L"
    by blast
  have s: "sigmoid64 (Fin 0) = Fin (1 / 2)" by (rule sigmoid64_zero)
  have h: "fsub (Fin 1) (Fin (1 / 2)) = Fin (1 / 2)" "fsub (Fin 1) (Fin 1) = Fin 0"
    by (simp_all add: fsub_def round64_float is_float64_examples)
  have r: "round64 L = Fin L" "round64 (- L) = Fin (- L)"
    using L(2) by (simp_all add: round64_float is_float64_minus)
  have "cost64 [[Fin 0]] [Fin 1] [Fin v] (Fin 0)
          = fmul (round64 (- 1)) (fadd (fmul (Fin 1) (flog (Fin (1 / 2))))
              (fmul (Fin 0) (flog (Fin (1 / 2)))))"
    unfolding cost64_def Let_def
    by (simp add: round64_zero s h del: flog.simps)
  also have "\<dots> = Fin (- L)"
    by (simp add: L(1) r round64_zero round64_float is_float64_examples del: flog.simps)
  finally show ?thesis
    by (simp add: L(1) del: flog.simps)
qed

lemma cost64_one_example_range:
  "\<exists>c. fneg (flog (Fin (1 / 2))) = Fin c \<and> is_float64 c \<and> 1 / 2 \<le> c \<and> c \<le> 3 / 4"
proof -
  from flog_half obtain L where
    "flog (Fin (1 / 2)) = Fin L" "is_float64 L" "- (3 / 4) \<le> L" "L \<le> - (1 / 2)"
    by blast
  then have "fneg (flog (Fin (1 / 2))) = Fin (- L) \<and> is_float64 (- L) \<and> 1 / 2 \<le> - L \<and> - L \<le> 3 / 4"
    by (simp add: is_float64_minus)
  then show ?thesis by blast
qed

lemma one_example_dataset: "dataset [[Fin 0]] [Fin 1] 1 1"
  by (simp add: dataset_def)

lemma compute_cost64_one_example:
  "compute_cost64 [[Fin 0]] [Fin 1] [Fin v] (Fin 0) lambda = Inr (fneg (flog (Fin (1 / 2))))"
  using compute_cost64_value [OF one_example_dataset, of "[Fin v]" "Fin 0" lambda]
  by (simp add: cost64_one_example del: flog.simps)

lemma compute_cost_reg64_one_example:
  "compute_cost_reg64 [[Fin 0]] [Fin 1] [Fin v] (Fin 0) (Some l)
     = Inr (fadd (fneg (flog (Fin (1 / 2)))) (fmul (fdiv l (Fin 2)) (round64 (v * v))))"
  using compute_cost_reg64_value [OF one_example_dataset, of "[Fin v]" "Fin 0" l]
  by (simp add: cost64_one_example round64_float is_float64_examples del: flog.simps)


lemma cost_one_example_ge_half: "fle (Fin (1 / 2)) (fneg (flog (Fin (1 / 2))))"
proof -
  from cost64_one_example_range obtain c where
    "fneg (flog (Fin (1 / 2))) = Fin c" "1 / 2 \<le> c"
    by blast
  then show ?thesis
    by (simp only: fle.simps)
qed

text \<open>
  With \<open>w = [2\<^sup>6\<^sup>0\<^sup>0]\<close> the square overflows: \<open>np.sum(w**2)\<close> is \<open>inf\<close>, the term
  \<open>0.0 * inf\<close> is \<open>nan\<close>, and so is the regularized cost with \<open>lambda_ = 0\<close>.
\<close>

lemma compute_cost_reg64_overflow:
  "compute_cost_reg64 [[Fin 0]] [Fin 1] [Fin (2 ^ 600)] (Fin 0) (Some (Fin 0)) = Inr NaN"
proof -
  from cost64_one_example_range obtain c where
    c: "fneg (flog (Fin (1 / 2))) = Fin c"
    by blast
  have "overflow64 \<le> 2 ^ 600 * 2 ^ 600"
    by (simp add: overflow64_def)
  then have sq: "round64 (2 ^ 600 * 2 ^ 600) = PInf"
    by (rule round64_overflow)
  have zero: "fdiv (Fin 0) (Fin 2) = Fin 0"
    by (simp add: round64_float is_float64_examples)
  have "fadd (Fin c) (fmul (Fin 0) (round64 (2 ^ 600 * 2 ^ 600))) = NaN"
    by (simp only: sq) simp
  then show ?thesis
    by (simp only: compute_cost_reg64_one_example zero c)
qed


text \<open>
  Equality with \<open>compute_cost\<close> at \<open>lambda_ = 0\<close> fails where the sum of squares
  overflows: at \<open>X = [[0.]]\<close>, \<open>y = [1.]\<close>, \<open>w = [2\<^sup>6\<^sup>0\<^sup>0]\<close>, \<open>b = 0.\<close> the regularized cost
  is \<open>nan\<close> and the plain cost is \<open>- log(0.5)\<close>, a number that is at least \<open>0.5\<close>.
\<close>

theorem compute_cost_reg64_nan:
  "compute_cost_reg64 [[Fin 0]] [Fin 1] [Fin (2 ^ 600)] (Fin 0) (Some (Fin 0)) = Inr NaN
   \<and> compute_cost64 [[Fin 0]] [Fin 1] [Fin (2 ^ 600)] (Fin 0) None
       = Inr (fneg (flog (Fin (1 / 2))))
   \<and> fle (Fin (1 / 2)) (fneg (flog (Fin (1 / 2))))"
  using compute_cost_reg64_overflow compute_cost64_one_example [of "2 ^ 600" None]
    cost_one_example_ge_half
  by (simp only:)


end
